theory Spec2Isabelle
  imports Main "HOL-Library.Word"
begin

unbundle bit_operations_syntax

section \<open>Machine integers of main.c\<close>

text \<open>
  The tick counter, the switch identifiers and the time stamps are \<open>int32_t\<close>; the clock
  and alarm times and the GPIO data register are \<open>uint32_t\<close>. Both are 32-bit words here:
  arithmetic wraps modulo \<open>2 ^ 32\<close> as on the Cortex-M4 target (for \<open>int32_t\<close> the C
  standard leaves overflow undefined; the tick counter is left running and does wrap),
  \<open>sint\<close> reads a word as two's complement where the source compares signed values,
  and the unsigned order of words is the order of \<open>uint32_t\<close>.
\<close>

type_synonym i32 = "32 word"
type_synonym u32 = "32 word"

text \<open>\<open>abs\<close> of \<open>stdlib.h\<close> on a 32-bit \<open>int\<close>, with the two's complement negation of the target.\<close>

definition abs_i32 :: "i32 \<Rightarrow> i32" where
  "abs_i32 x = (if sint x < 0 then - x else x)"

section \<open>Time arithmetic\<close>

text \<open>
  \<open>incrementTime\<close> and \<open>decrementTime\<close> update an hour and a minute through two
  pointers; the model passes the pair \<open>(hh, mm)\<close> and returns the updated pair.
\<close>

type_synonym time_value = "u32 \<times> u32"

fun incrementTime :: "time_value \<Rightarrow> time_value" where
  "incrementTime (hh, mm) =
     (let mm1 = mm + 1 in
      if mm1 = 60 then
        (let hh1 = hh + 1 in ((if hh1 = 24 then 0 else hh1), 0))
      else (hh, mm1))"

fun decrementTime :: "time_value \<Rightarrow> time_value" where
  "decrementTime (hh, mm) =
     (if hh = 0 \<and> mm = 0 then (hh, mm)
      else if mm = 0 then (hh - 1, 59)
      else (hh, mm - 1))"

text \<open>A normalized time has an hour in 0..23 and a minute in 0..59.\<close>

definition normalized :: "time_value \<Rightarrow> bool" where
  "normalized t = (fst t < 24 \<and> snd t < 60)"

text \<open>Minutes since midnight, used to state and prove the daily cycle.\<close>

definition minutes_of :: "time_value \<Rightarrow> nat" where
  "minutes_of t = unat (fst t) * 60 + unat (snd t)"

section \<open>Text rendering\<close>

text \<open>
  \<open>printTime\<close> formats with \<open>sprintf(timeString, "%2d:%02d\r", hh, mm)\<close> and sends the
  characters to UART0. \<open>decimal\<close> gives the decimal digits of a natural number,
  \<open>fmt_d w\<close> is the conversion \<open>%wd\<close> (right-justified in a field of at least \<open>w\<close>
  characters, padded with spaces) and \<open>fmt_0d w\<close> is \<open>%0wd\<close> (padded with zeros after
  the sign). The \<open>uint32_t\<close> arguments are read as \<open>int\<close> by \<open>%d\<close>, hence \<open>sint\<close>.
  The string returned is what \<open>sprintf\<close> produces; it fits the 7-byte buffer of the
  source when it has at most 6 characters, which is the case for normalized times.
\<close>

definition digit_char :: "nat \<Rightarrow> char" where
  "digit_char d = ''0123456789'' ! d"

fun decimal :: "nat \<Rightarrow> string" where
  "decimal n = (if n < 10 then [digit_char n] else decimal (n div 10) @ [digit_char (n mod 10)])"

declare decimal.simps [simp del]

definition fmt_d :: "nat \<Rightarrow> int \<Rightarrow> string" where
  "fmt_d w i =
     (let s = (if i < 0 then CHR ''-'' # decimal (nat (- i)) else decimal (nat i))
      in replicate (w - length s) CHR '' '' @ s)"

definition fmt_0d :: "nat \<Rightarrow> int \<Rightarrow> string" where
  "fmt_0d w i =
     (if i < 0 then
        (let s = decimal (nat (- i)) in CHR ''-'' # replicate (w - 1 - length s) CHR ''0'' @ s)
      else
        (let s = decimal (nat i) in replicate (w - length s) CHR ''0'' @ s))"

definition printTime :: "u32 \<Rightarrow> u32 \<Rightarrow> string" where
  "printTime hh mm = fmt_d 2 (sint hh) @ '':'' @ fmt_0d 2 (sint mm) @ [CHR 0x0D]"

section \<open>The queue of switch inputs\<close>

text \<open>
  \<open>MessageQueue\<close> is an array of \<open>MESSAGE_QUEUE_SZ = 50\<close> entries with two cursors,
  \<open>FrontQueue\<close> and \<open>RearQueue\<close>, both \<open>-1\<close> when the queue is empty. The cursors are
  modelled as integers: they stay within \<open>-1..49\<close> (see \<open>queue_inv\<close>), so the width of
  \<open>int32_t\<close> plays no role. An access outside the array is undefined behaviour in C;
  the model returns \<open>None\<close> there.
\<close>

record msgque_t =
  switchPressed :: i32
  switchPressedTime :: i32

record queue_state =
  MessageQueue :: "msgque_t list"
  FrontQueue :: int
  RearQueue :: int

definition MESSAGE_QUEUE_SZ :: int where
  "MESSAGE_QUEUE_SZ = 50"

definition in_bounds :: "msgque_t list \<Rightarrow> int \<Rightarrow> bool" where
  "in_bounds xs i = (0 \<le> i \<and> i < int (length xs))"

text \<open>
  \<open>enqueue\<close> is called by \<open>GPIOF_Handler\<close> with the switch number; the second argument
  is the value of \<open>CurrentTicks\<close> it reads.
\<close>

definition enqueue :: "i32 \<Rightarrow> i32 \<Rightarrow> queue_state \<Rightarrow> queue_state option" where
  "enqueue input CurrentTicks q =
     (if RearQueue q = MESSAGE_QUEUE_SZ - 1 then Some q
      else
        (let q1 = (if FrontQueue q = -1 \<and> RearQueue q = -1
                   then q\<lparr>FrontQueue := 0, RearQueue := 0\<rparr>
                   else q\<lparr>RearQueue := RearQueue q + 1\<rparr>)
         in if in_bounds (MessageQueue q1) (RearQueue q1) then
              Some (q1\<lparr>MessageQueue := (MessageQueue q1)[nat (RearQueue q1) :=
                      \<lparr>switchPressed = input, switchPressedTime = CurrentTicks\<rparr>]\<rparr>)
            else None))"

text \<open>
  \<open>dequeue\<close> writes its two results through pointers; the model takes the old value of
  \<open>*switchPressedTime\<close> (left as it is when the queue is empty) and returns
  \<open>(*switchPressed, *switchPressedTime, queue)\<close>.
\<close>

definition dequeue :: "queue_state \<Rightarrow> i32 \<Rightarrow> (i32 \<times> i32 \<times> queue_state) option" where
  "dequeue q spt =
     (if FrontQueue q = -1 \<and> RearQueue q = -1 then Some (-1, spt, q)
      else if in_bounds (MessageQueue q) (FrontQueue q) then
        (let e = MessageQueue q ! nat (FrontQueue q);
             mq = (MessageQueue q)[nat (FrontQueue q) := e\<lparr>switchPressed := -1\<rparr>]
         in Some (switchPressed e, switchPressedTime e,
                  (if FrontQueue q = RearQueue q
                   then q\<lparr>MessageQueue := mq, FrontQueue := -1, RearQueue := -1\<rparr>
                   else q\<lparr>MessageQueue := mq, FrontQueue := FrontQueue q + 1\<rparr>)))
      else None)"

text \<open>The queue at startup: a zero-initialised array and both cursors at \<open>-1\<close>.\<close>

definition queue_init :: queue_state where
  "queue_init =
     \<lparr>MessageQueue = replicate 50 \<lparr>switchPressed = 0, switchPressedTime = 0\<rparr>,
      FrontQueue = -1, RearQueue = -1\<rparr>"

text \<open>Several calls in a row: pushing a list of events, popping \<open>n\<close> times.\<close>

fun enqueue_all :: "(i32 \<times> i32) list \<Rightarrow> queue_state \<Rightarrow> queue_state option" where
  "enqueue_all [] q = Some q"
| "enqueue_all ((input, ticks) # es) q =
     (case enqueue input ticks q of None \<Rightarrow> None | Some q1 \<Rightarrow> enqueue_all es q1)"

fun dequeue_n :: "nat \<Rightarrow> queue_state \<Rightarrow> i32 \<Rightarrow> ((i32 \<times> i32) list \<times> queue_state) option" where
  "dequeue_n 0 q spt = Some ([], q)"
| "dequeue_n (Suc n) q spt =
     (case dequeue q spt of
        None \<Rightarrow> None
      | Some (sp, spt1, q1) \<Rightarrow>
          (case dequeue_n n q1 spt1 of
             None \<Rightarrow> None
           | Some (rs, q2) \<Rightarrow> Some ((sp, spt1) # rs, q2)))"

text \<open>
  The states the two operations keep the queue in, the empty queue, and the events
  pending between the cursors, oldest first.
\<close>

definition queue_empty :: "queue_state \<Rightarrow> bool" where
  "queue_empty q = (FrontQueue q = -1 \<and> RearQueue q = -1)"

definition queue_inv :: "queue_state \<Rightarrow> bool" where
  "queue_inv q =
     (length (MessageQueue q) = 50 \<and>
      (queue_empty q \<or> (0 \<le> FrontQueue q \<and> FrontQueue q \<le> RearQueue q \<and> RearQueue q \<le> 49)))"

definition pending :: "queue_state \<Rightarrow> (i32 \<times> i32) list" where
  "pending q =
     (if queue_empty q then []
      else map (\<lambda>i. (switchPressed (MessageQueue q ! i), switchPressedTime (MessageQueue q ! i)))
             [nat (FrontQueue q) ..< nat (RearQueue q + 1)])"

text \<open>A queue whose read cursor has not moved since it was last empty.\<close>

definition fresh :: "queue_state \<Rightarrow> bool" where
  "fresh q = (queue_empty q \<or> FrontQueue q = 0)"

text \<open>
  Two queues met below: the queue after fifty presses of switch 1 at tick 0 from
  startup, and that queue after one call of \<open>dequeue\<close>.
\<close>

definition queue_filled :: queue_state where
  "queue_filled =
     \<lparr>MessageQueue = replicate 50 \<lparr>switchPressed = 1, switchPressedTime = 0\<rparr>,
      FrontQueue = 0, RearQueue = 49\<rparr>"

definition queue_popped_once :: queue_state where
  "queue_popped_once =
     \<lparr>MessageQueue = (replicate 50 \<lparr>switchPressed = 1, switchPressedTime = 0\<rparr>)
                        [0 := \<lparr>switchPressed = -1, switchPressedTime = 0\<rparr>],
      FrontQueue = 1, RearQueue = 49\<rparr>"

section \<open>The control loop of main\<close>

text \<open>
  The three display states are the macros \<open>DISPLAY_CLOCK\<close>, \<open>DISPLAY_ALARM_INIT\<close> and
  \<open>DISPLAY_ALARM\<close> (0, 1 and 2); \<open>displayState\<close> only ever holds one of them.
\<close>

datatype display_state = DISPLAY_CLOCK | DISPLAY_ALARM_INIT | DISPLAY_ALARM

text \<open>
  The state of \<open>main\<close>: its local variables, the data register of GPIO port F (bit 1
  drives the red led) and the characters sent to UART0 so far. \<open>switchPressedTime_local\<close>
  is the local variable \<open>switchPressedTime\<close> of \<open>main\<close>, renamed apart from the field of
  \<open>msgque_t\<close>. \<open>printChar\<close> waits for the transmitter and writes one character; the
  model records the characters in the order written.
\<close>

record main_state =
  previousClockTicks :: i32
  previousAlarmTicks :: i32
  previousSW1Ticks :: i32
  ledOnTicks :: i32
  switchPressedTime_local :: i32
  lastSwitch1Processed :: i32
  lastSwitch2Processed :: i32
  displayState :: display_state
  clockHH :: u32
  clockMM :: u32
  alarmHH :: u32
  alarmMM :: u32
  GPIOF_DATA :: u32
  UART0_out :: string

definition DEBOUNCE_TIME :: int where "DEBOUNCE_TIME = 200"
definition DELAY_TIME_10 :: int where "DELAY_TIME_10 = 10000"
definition DELAY_TIME_15 :: int where "DELAY_TIME_15 = 15000"
definition DELAY_TIME_60 :: int where "DELAY_TIME_60 = 60000"

text \<open>\<open>abs(a - b)\<close> as the source computes it on \<open>int32_t\<close>, read as a signed value.\<close>

definition elapsed :: "i32 \<Rightarrow> i32 \<Rightarrow> int" where
  "elapsed a b = sint (abs_i32 (a - b))"

text \<open>The three accesses to bit 1 of \<open>GPIOF->DATA\<close>.\<close>

definition led_is_on :: "main_state \<Rightarrow> bool" where
  "led_is_on s = (GPIOF_DATA s AND push_bit 1 1 \<noteq> 0)"

definition led_off :: "main_state \<Rightarrow> main_state" where
  "led_off s = s\<lparr>GPIOF_DATA := GPIOF_DATA s AND NOT (push_bit 1 1)\<rparr>"

definition led_on :: "main_state \<Rightarrow> main_state" where
  "led_on s = s\<lparr>GPIOF_DATA := GPIOF_DATA s OR push_bit 1 1\<rparr>"

definition print_clock :: "main_state \<Rightarrow> main_state" where
  "print_clock s = s\<lparr>UART0_out := UART0_out s @ printTime (clockHH s) (clockMM s)\<rparr>"

definition print_alarm :: "main_state \<Rightarrow> main_state" where
  "print_alarm s = s\<lparr>UART0_out := UART0_out s @ printTime (alarmHH s) (alarmMM s)\<rparr>"

definition increment_alarm :: "main_state \<Rightarrow> main_state" where
  "increment_alarm s =
     (case incrementTime (alarmHH s, alarmMM s) of (hh, mm) \<Rightarrow> s\<lparr>alarmHH := hh, alarmMM := mm\<rparr>)"

definition decrement_alarm :: "main_state \<Rightarrow> main_state" where
  "decrement_alarm s =
     (case decrementTime (alarmHH s, alarmMM s) of (hh, mm) \<Rightarrow> s\<lparr>alarmHH := hh, alarmMM := mm\<rparr>)"

definition increment_clock :: "main_state \<Rightarrow> main_state" where
  "increment_clock s =
     (case incrementTime (clockHH s, clockMM s) of (hh, mm) \<Rightarrow> s\<lparr>clockHH := hh, clockMM := mm\<rparr>)"

text \<open>
  The state before the loop (lines 99 to 138). \<open>banner\<close> is the line with the clock
  frequency, \<open>data\<close> the content of the data register, \<open>ticks1\<close> and \<open>ticks2\<close> the two
  readings of \<open>CurrentTicks\<close>, and \<open>spt\<close> the uninitialised \<open>switchPressedTime\<close>.
\<close>

definition main_init :: "string \<Rightarrow> u32 \<Rightarrow> i32 \<Rightarrow> i32 \<Rightarrow> i32 \<Rightarrow> main_state" where
  "main_init banner data ticks1 ticks2 spt =
     \<lparr>previousClockTicks = ticks1,
      previousAlarmTicks = 0,
      previousSW1Ticks = 0,
      ledOnTicks = 0,
      switchPressedTime_local = spt,
      lastSwitch1Processed = ticks2,
      lastSwitch2Processed = ticks2,
      displayState = DISPLAY_CLOCK,
      clockHH = 12,
      clockMM = 12,
      alarmHH = 0,
      alarmMM = 0,
      GPIOF_DATA = data,
      UART0_out = banner @ printTime 12 12\<rparr>"

text \<open>Lines 148 to 169: the switch bounce filter. It returns the new \<open>switchPressed\<close>.\<close>

definition main_debounce :: "i32 \<Rightarrow> main_state \<Rightarrow> i32 \<times> main_state" where
  "main_debounce sp s =
     (if sp = 1 then
        (if elapsed (switchPressedTime_local s) (lastSwitch1Processed s) < DEBOUNCE_TIME
         then (-1, s)
         else (sp, s\<lparr>lastSwitch1Processed := switchPressedTime_local s\<rparr>))
      else if sp = 2 then
        (if elapsed (switchPressedTime_local s) (lastSwitch2Processed s) < DEBOUNCE_TIME
         then (-1, s)
         else (sp, s\<lparr>lastSwitch2Processed := switchPressedTime_local s\<rparr>))
      else (sp, s))"

text \<open>Lines 171 to 180: switch 2.\<close>

definition main_switch2 :: "i32 \<Rightarrow> main_state \<Rightarrow> main_state" where
  "main_switch2 now s =
     (let s1 = led_off s;
          s2 = s1\<lparr>displayState := DISPLAY_ALARM\<rparr>;
          s3 = increment_alarm s2;
          s4 = print_alarm s3
      in s4\<lparr>previousAlarmTicks := now\<rparr>)"

text \<open>Lines 181 to 211: switch 1.\<close>

definition main_switch1 :: "i32 \<Rightarrow> main_state \<Rightarrow> main_state" where
  "main_switch1 now s =
     (if led_is_on s then led_off s
      else
        (let s1 =
           (if alarmHH s = 0 \<and> alarmMM s = 0 then
              s\<lparr>displayState := DISPLAY_ALARM_INIT, previousSW1Ticks := now\<rparr>
            else if displayState s = DISPLAY_ALARM then
              (let s2 = decrement_alarm s
               in if alarmHH s2 = 0 \<and> alarmMM s2 = 0 then
                    s2\<lparr>displayState := DISPLAY_ALARM_INIT, previousSW1Ticks := now\<rparr>
                  else s2\<lparr>previousAlarmTicks := now\<rparr>)
            else s)
         in print_alarm s1))"

text \<open>Lines 212 to 245: nothing accepted from the queue. Three tests in a row.\<close>

definition main_arming_timeout :: "i32 \<Rightarrow> main_state \<Rightarrow> main_state" where
  "main_arming_timeout now s =
     (if displayState s = DISPLAY_ALARM_INIT \<and> elapsed now (previousSW1Ticks s) \<ge> DELAY_TIME_10
      then print_clock (s\<lparr>displayState := DISPLAY_CLOCK\<rparr>)
      else s)"

definition main_alarm_countdown :: "i32 \<Rightarrow> main_state \<Rightarrow> main_state" where
  "main_alarm_countdown now s =
     (if displayState s = DISPLAY_ALARM \<and> elapsed now (previousAlarmTicks s) \<ge> DELAY_TIME_60 then
        (let s1 = decrement_alarm s
         in if alarmHH s1 = 0 \<and> alarmMM s1 = 0 then
              print_clock ((led_on (s1\<lparr>displayState := DISPLAY_CLOCK\<rparr>))\<lparr>ledOnTicks := now\<rparr>)
            else print_alarm (s1\<lparr>previousAlarmTicks := now\<rparr>))
      else s)"

definition main_led_timeout :: "i32 \<Rightarrow> main_state \<Rightarrow> main_state" where
  "main_led_timeout now s =
     (if led_is_on s then
        (if elapsed now (ledOnTicks s) \<ge> DELAY_TIME_15 then led_off s else s)
      else s)"

definition main_no_input :: "i32 \<Rightarrow> main_state \<Rightarrow> main_state" where
  "main_no_input now s =
     main_led_timeout now (main_alarm_countdown now (main_arming_timeout now s))"

text \<open>Lines 247 to 254: the minute of the clock.\<close>

definition main_clock_minute :: "i32 \<Rightarrow> main_state \<Rightarrow> main_state" where
  "main_clock_minute now s =
     (if elapsed now (previousClockTicks s) \<ge> DELAY_TIME_60 then
        (let s1 = increment_clock (s\<lparr>previousClockTicks := now\<rparr>)
         in if displayState s1 = DISPLAY_CLOCK then print_clock s1 else s1)
      else s)"

text \<open>
  One iteration after \<open>dequeue\<close> has returned \<open>sp\<close> in \<open>switchPressed\<close> (lines 148 to
  254), and the whole iteration (lines 143 to 254) on the value \<open>now\<close> read from
  \<open>CurrentTicks\<close> and the queue.
\<close>

definition main_dispatch :: "i32 \<Rightarrow> i32 \<Rightarrow> main_state \<Rightarrow> main_state" where
  "main_dispatch now sp s =
     (if sp = 2 then main_switch2 now s
      else if sp = 1 then main_switch1 now s
      else main_no_input now s)"

definition main_step :: "i32 \<Rightarrow> i32 \<Rightarrow> main_state \<Rightarrow> main_state" where
  "main_step now sp s =
     (case main_debounce sp s of (sp1, s1) \<Rightarrow> main_clock_minute now (main_dispatch now sp1 s1))"

definition main_loop_body :: "i32 \<Rightarrow> queue_state \<Rightarrow> main_state \<Rightarrow> (queue_state \<times> main_state) option" where
  "main_loop_body now q s =
     (case dequeue q (switchPressedTime_local s) of
        None \<Rightarrow> None
      | Some (sp, spt, q1) \<Rightarrow> Some (q1, main_step now sp (s\<lparr>switchPressedTime_local := spt\<rparr>)))"

text \<open>
  The states of \<open>main\<close> that the loop can reach from startup, whatever the tick counter
  reads and whatever the interrupt handlers have put in the queue.
\<close>

inductive reachable :: "main_state \<Rightarrow> bool" where
  reachable_init: "reachable (main_init banner data ticks1 ticks2 spt)"
| reachable_step: "reachable s \<Longrightarrow> main_loop_body now q s = Some (q1, s1) \<Longrightarrow> reachable s1"

section \<open>Notions used to state the properties of the loop\<close>

text \<open>
  The distance between two readings of the tick counter: the magnitude of their
  \<open>int32_t\<close> difference. It is the number of ticks between the two readings as long
  as fewer than \<open>2 ^ 31\<close> ticks separate them (\<open>tick_distance_after\<close>), and it is
  what \<open>abs(a - b)\<close> computes in the source unless the difference is \<open>- 2 ^ 31\<close>,
  where \<open>abs\<close> overflows (\<open>elapsed_tick_distance\<close>).
\<close>

definition tick_distance :: "i32 \<Rightarrow> i32 \<Rightarrow> int" where
  "tick_distance a b = \<bar>sint (a - b)\<bar>"

text \<open>
  No input is accepted in an iteration when \<open>switchPressed\<close> is neither 1 nor 2 after
  the bounce filter: the queue was empty or the event was rejected.
\<close>

definition no_input :: "i32 \<Rightarrow> main_state \<Rightarrow> bool" where
  "no_input sp s = (fst (main_debounce sp s) \<noteq> 1 \<and> fst (main_debounce sp s) \<noteq> 2)"

text \<open>
  Several iterations in a row. Each element gives, for one iteration, the reading
  \<open>now\<close> of \<open>CurrentTicks\<close> and the values that \<open>dequeue\<close> leaves in \<open>switchPressed\<close>
  and \<open>switchPressedTime\<close> (\<open>-1\<close> and the old value on an empty queue).
  \<open>idle_steps\<close> holds when none of the iterations accepts an input.
\<close>

fun main_steps :: "(i32 \<times> i32 \<times> i32) list \<Rightarrow> main_state \<Rightarrow> main_state" where
  "main_steps [] s = s"
| "main_steps ((now, sp, t) # xs) s =
     main_steps xs (main_step now sp (s\<lparr>switchPressedTime_local := t\<rparr>))"

fun idle_steps :: "(i32 \<times> i32 \<times> i32) list \<Rightarrow> main_state \<Rightarrow> bool" where
  "idle_steps [] s = True"
| "idle_steps ((now, sp, t) # xs) s =
     (no_input sp (s\<lparr>switchPressedTime_local := t\<rparr>)
      \<and> idle_steps xs (main_step now sp (s\<lparr>switchPressedTime_local := t\<rparr>)))"

text \<open>The queue after one call \<open>enqueue(sp)\<close> at tick \<open>t\<close> from startup.\<close>

definition queue_one_press :: "i32 \<Rightarrow> i32 \<Rightarrow> queue_state" where
  "queue_one_press sp t =
     \<lparr>MessageQueue = (replicate 50 \<lparr>switchPressed = 0, switchPressedTime = 0\<rparr>)
                        [0 := \<lparr>switchPressed = sp, switchPressedTime = t\<rparr>],
      FrontQueue = 0, RearQueue = 0\<rparr>"

section \<open>Properties of the time arithmetic\<close>

text \<open>
  Claim C7. For every normalized time other than 0:00, incrementing the decremented time
  gives the time back; decrementing 0:00 gives 0:00, and there the round trip gives 0:01.
\<close>

theorem C7_increment_decrement:
  "(normalized t \<and> t \<noteq> (0, 0) \<longrightarrow> incrementTime (decrementTime t) = t)
   \<and> decrementTime (0, 0) = (0, 0)
   \<and> incrementTime (decrementTime (0, 0)) \<noteq> (0, 0)"
proof (intro conjI impI)
  assume a: "normalized t \<and> t \<noteq> (0, 0)"
  obtain hh mm where t: "t = (hh, mm)" by (cases t)
  from a t have hh: "hh < 24" and mm: "mm < 60" and nz: "\<not> (hh = 0 \<and> mm = 0)"
    by (simp_all add: normalized_def)
  show "incrementTime (decrementTime t) = t"
  proof (cases "mm = 0")
    case True
    with hh nz show ?thesis by (auto simp: t Let_def)
  next
    case False
    with mm show ?thesis by (auto simp: t Let_def)
  qed
next
  show "decrementTime (0, 0) = (0, 0)" by simp
next
  show "incrementTime (decrementTime (0, 0)) \<noteq> (0, 0)" by simp
qed

theorem C7_increment_decrement_witness:
  "normalized (12, 0) \<and> (12, 0) \<noteq> ((0, 0) :: time_value)
   \<and> incrementTime (decrementTime (12, 0)) = (12, 0)"
  using C7_increment_decrement [of "(12, 0)"] by (simp add: normalized_def)

lemma incrementTime_minutes:
  assumes "normalized t"
  shows "normalized (incrementTime t) \<and> minutes_of (incrementTime t) = (minutes_of t + 1) mod 1440"
proof -
  obtain hh mm where t: "t = (hh, mm)" by (cases t)
  from assms t have hh: "unat hh < 24" and mm: "unat mm < 60"
    by (simp_all add: normalized_def word_less_nat_alt)
  have m1: "unat (mm + 1) = unat mm + 1" using mm by (simp add: unat_word_ariths)
  have h1: "unat (hh + 1) = unat hh + 1" using hh by (simp add: unat_word_ariths)
  have e60: "(mm + 1 = 60) = (unat mm = 59)" by (simp add: word_unat_eq_iff m1)
  have e24: "(hh + 1 = 24) = (unat hh = 23)" by (simp add: word_unat_eq_iff h1)
  show ?thesis using hh mm
    by (auto simp: t Let_def normalized_def minutes_of_def e60 e24 m1 h1 word_less_nat_alt)
qed

lemma hm_unique:
  fixes a b c d :: nat
  assumes "b < 60" "d < 60" "a * 60 + b = c * 60 + d"
  shows "a = c \<and> b = d"
proof -
  from assms have "(a * 60 + b) div 60 = (c * 60 + d) div 60" by simp
  with assms(1,2) have "a = c" by simp
  with assms(3) show ?thesis by simp
qed

lemma minutes_of_inj:
  assumes "normalized s" "normalized t" "minutes_of s = minutes_of t"
  shows "s = t"
proof -
  obtain a b where s: "s = (a, b)" by (cases s)
  obtain c d where t: "t = (c, d)" by (cases t)
  from assms s t have b: "unat b < 60" and d: "unat d < 60"
    by (simp_all add: normalized_def word_less_nat_alt)
  from assms(3) s t have e: "unat a * 60 + unat b = unat c * 60 + unat d"
    by (simp add: minutes_of_def)
  from hm_unique [OF b d e] have "unat a = unat c \<and> unat b = unat d" .
  then show ?thesis by (simp add: s t word_unat_eq_iff)
qed

lemma incrementTime_funpow:
  "normalized t \<Longrightarrow>
     normalized ((incrementTime ^^ k) t)
     \<and> minutes_of ((incrementTime ^^ k) t) = (minutes_of t + k) mod 1440"
proof (induction k)
  case 0
  then show ?case 
    by (cases t) (auto simp: minutes_of_def normalized_def word_less_nat_alt)
next
  case (Suc k)
  then show ?case using incrementTime_minutes [of "(incrementTime ^^ k) t"]
    by (simp add: mod_Suc_eq)
qed

text \<open>
  Claim C8. For every normalized time, 1440 increments in a row give the time back.
\<close>

theorem C8_daily_cycle: "normalized t \<Longrightarrow> (incrementTime ^^ 1440) t = t"
proof -
  assume n: "normalized t"
  define u where "u = (incrementTime ^^ 1440) t"
  have lt: "minutes_of t < 1440" using n
    by (cases t) (auto simp: minutes_of_def normalized_def word_less_nat_alt)
  from incrementTime_funpow [OF n, of 1440]
  have nu: "normalized u" and mu: "minutes_of u = (minutes_of t + 1440) mod 1440"
    unfolding u_def by blast+
  from mu lt have "minutes_of u = minutes_of t" by simp
  with nu n have "u = t" by (blast intro: minutes_of_inj)
  then show ?thesis unfolding u_def .
qed

theorem C8_daily_cycle_witness:
  "normalized (23, 59) \<and> (incrementTime ^^ 1440) (23, 59) = (23, 59)"
proof -
  have n: "normalized (23, 59)" by (simp add: normalized_def)
  from C8_daily_cycle [OF n] n show ?thesis by (rule conjI [rotated])
qed

section \<open>Properties of the text rendering\<close>

lemma digit_char_0: "digit_char 0 = CHR ''0''"
  by (simp add: digit_char_def)

lemma decimal_one_digit: "n < 10 \<Longrightarrow> decimal n = [digit_char n]"
  by (simp add: decimal.simps)

lemma decimal_two_digits:
  "10 \<le> n \<Longrightarrow> n < 100 \<Longrightarrow> decimal n = [digit_char (n div 10), digit_char (n mod 10)]"
  by (subst decimal.simps) (simp add: decimal_one_digit)

lemma sint_nonneg_unat: "unat (x :: u32) < 2147483648 \<Longrightarrow> sint x = int (unat x)"
proof -
  assume "unat x < 2147483648"
  then have "int (unat x) < 2147483648" by linarith
  then have "uint x < 2 ^ 31" by simp
  moreover have "- (2 ^ 31) \<le> uint x" by (rule order_trans [of _ 0]) simp_all
  ultimately have "signed_take_bit 31 (uint x) = uint x"
    by (rule signed_take_bit_int_eq_self [rotated])
  then show ?thesis by (simp add: sint_uint)
qed

lemma fmt_d_2: "n < 100 \<Longrightarrow>
  fmt_d 2 (int n) = (if n < 10 then [CHR '' '', digit_char n] else [digit_char (n div 10), digit_char (n mod 10)])"
  by (simp add: fmt_d_def decimal_one_digit decimal_two_digits Let_def)

lemma fmt_0d_2: "n < 100 \<Longrightarrow>
  fmt_0d 2 (int n) = [digit_char (n div 10), digit_char (n mod 10)]"
  by (cases "n < 10") (simp_all add: fmt_0d_def decimal_one_digit decimal_two_digits Let_def digit_char_0)

text \<open>
  Claim C9, as the source has it. For every normalized time, \<open>printTime\<close> emits six
  characters: the hour right-justified in two columns (a space and one digit for hours
  below 10, two digits otherwise), a colon, the minute as two digits with a leading
  zero, and a carriage return.
\<close>

theorem C9_printTime_format:
  assumes "normalized (hh, mm)"
  shows "printTime hh mm =
     (if hh < 10 then [CHR '' '', digit_char (unat hh)]
      else [digit_char (unat hh div 10), digit_char (unat hh mod 10)])
     @ '':'' @ [digit_char (unat mm div 10), digit_char (unat mm mod 10)] @ [CHR 0x0D]
   \<and> length (printTime hh mm) = 6"
proof -
  from assms have h24: "unat hh < 24" and m60: "unat mm < 60"
    by (auto simp: normalized_def word_less_nat_alt)
  have sh: "sint hh = int (unat hh)" using h24 by (intro sint_nonneg_unat) simp
  have sm: "sint mm = int (unat mm)" using m60 by (intro sint_nonneg_unat) simp
  have lt: "(hh < 10) = (unat hh < 10)" by (simp add: word_less_nat_alt)
  have a: "fmt_d 2 (sint hh) = (if hh < 10 then [CHR '' '', digit_char (unat hh)]
      else [digit_char (unat hh div 10), digit_char (unat hh mod 10)])"
    unfolding sh lt using h24 by (intro fmt_d_2) simp
  have b: "fmt_0d 2 (sint mm) = [digit_char (unat mm div 10), digit_char (unat mm mod 10)]"
    unfolding sm using m60 by (intro fmt_0d_2) simp
  show ?thesis unfolding printTime_def a b by simp
qed

theorem C9_printTime_format_witness:
  "normalized (9, 5) \<and> printTime 9 5 = '' 9:05'' @ [CHR 0x0D] \<and> length (printTime 9 5) = 6"
  using C9_printTime_format [of 9 5]
  by (simp add: normalized_def digit_char_def)

text \<open>
  The claim as written (a bare single digit for hours below 10) fails: at 0:01 the
  output starts with a space.
\<close>

theorem C9_unpadded_hour_counterexample:
  "normalized (0, 1) \<and> printTime 0 1 = '' 0:01'' @ [CHR 0x0D]
   \<and> printTime 0 1 \<noteq> ''0:01'' @ [CHR 0x0D]"
  by (simp add: normalized_def printTime_def fmt_d_def fmt_0d_def decimal_one_digit digit_char_def)

section \<open>Properties of the queue\<close>

lemma length_pending:
  "queue_inv q \<Longrightarrow> length (pending q) = (if queue_empty q then 0 else nat (RearQueue q - FrontQueue q + 1))"
  by (auto simp: queue_inv_def pending_def)

lemma pending_Nil_iff: "queue_inv q \<Longrightarrow> (pending q = []) = queue_empty q"
  by (auto simp: queue_inv_def pending_def)

lemma enqueue_full: "RearQueue q = 49 \<Longrightarrow> enqueue sp t q = Some q"
  by (simp add: enqueue_def MESSAGE_QUEUE_SZ_def)

lemma enqueue_empty:
  assumes "queue_inv q" "queue_empty q"
  shows "enqueue sp t q = Some (q\<lparr>FrontQueue := 0, RearQueue := 0,
            MessageQueue := (MessageQueue q)[0 := \<lparr>switchPressed = sp, switchPressedTime = t\<rparr>]\<rparr>)"
  using assms
  by (simp add: enqueue_def MESSAGE_QUEUE_SZ_def queue_inv_def queue_empty_def in_bounds_def Let_def)

lemma enqueue_nonempty:
  assumes "queue_inv q" "\<not> queue_empty q" "RearQueue q \<noteq> 49"
  shows "enqueue sp t q = Some (q\<lparr>RearQueue := RearQueue q + 1,
            MessageQueue := (MessageQueue q)[nat (RearQueue q + 1) := \<lparr>switchPressed = sp, switchPressedTime = t\<rparr>]\<rparr>)"
  using assms
  by (auto simp add: enqueue_def MESSAGE_QUEUE_SZ_def queue_inv_def queue_empty_def in_bounds_def Let_def)

lemma enqueue_pending:
  assumes inv: "queue_inv q" and nf: "RearQueue q \<noteq> 49"
  shows "\<exists>q'. enqueue sp t q = Some q' \<and> queue_inv q' \<and> pending q' = pending q @ [(sp, t)]
           \<and> (fresh q \<longrightarrow> fresh q') \<and> RearQueue q' = RearQueue q + 1
           \<and> MessageQueue q' = (MessageQueue q)[nat (RearQueue q + 1) := \<lparr>switchPressed = sp, switchPressedTime = t\<rparr>]"
proof (cases "queue_empty q")
  case True
  with inv show ?thesis
    by (simp add: enqueue_empty) (simp add: queue_inv_def queue_empty_def pending_def fresh_def)
next
  case False
  let ?e = "\<lparr>switchPressed = sp, switchPressedTime = t\<rparr>"
  from inv False nf have b: "0 \<le> FrontQueue q" "FrontQueue q \<le> RearQueue q" "RearQueue q < 49"
    and len: "length (MessageQueue q) = 50"
    by (auto simp: queue_inv_def)
  define f where "f = nat (FrontQueue q)"
  define r where "r = nat (RearQueue q)"
  have fr: "f \<le> r" "r < 49" using b by (auto simp: f_def r_def)
  have r1: "nat (RearQueue q + 1) = Suc r" "nat (2 + RearQueue q) = Suc (Suc r)"
    using b by (auto simp: r_def)
  have upt: "[f..<Suc (Suc r)] = [f..<Suc r] @ [Suc r]" using fr by simp
  have old: "map (\<lambda>i. (switchPressed ((MessageQueue q)[Suc r := ?e] ! i), switchPressedTime ((MessageQueue q)[Suc r := ?e] ! i))) [f..<Suc r]
           = map (\<lambda>i. (switchPressed (MessageQueue q ! i), switchPressedTime (MessageQueue q ! i))) [f..<Suc r]"
    by (rule map_cong) auto
  have new: "(MessageQueue q)[Suc r := ?e] ! Suc r = ?e" using fr len by simp
  have p: "pending (q\<lparr>RearQueue := RearQueue q + 1, MessageQueue := (MessageQueue q)[Suc r := ?e]\<rparr>)
      = pending q @ [(sp, t)]"
    using False b
    by (simp add: pending_def queue_empty_def r1 f_def [symmetric] upt old new del: upt_Suc)
  show ?thesis using inv False nf b len p
    by (simp add: enqueue_nonempty r1) (auto simp: queue_inv_def queue_empty_def fresh_def)
qed

lemma dequeue_empty: "queue_empty q \<Longrightarrow> dequeue q spt = Some (-1, spt, q)"
  by (simp add: dequeue_def queue_empty_def)

lemma dequeue_pending:
  assumes inv: "queue_inv q" and ne: "pending q = e # es"
  shows "\<exists>q'. dequeue q spt = Some (fst e, snd e, q') \<and> queue_inv q' \<and> pending q' = es"
proof -
  from inv ne have nemp: "\<not> queue_empty q" by (auto simp: pending_def)
  with inv have b: "0 \<le> FrontQueue q" "FrontQueue q \<le> RearQueue q" "RearQueue q \<le> 49"
    and len: "length (MessageQueue q) = 50"
    by (auto simp: queue_inv_def)
  define f where "f = nat (FrontQueue q)"
  define r where "r = nat (RearQueue q)"
  define pay where "pay = (\<lambda>m :: msgque_t. (switchPressed m, switchPressedTime m))"
  have fr: "f \<le> r" "r \<le> 49" using b by (auto simp: f_def r_def)
  have r1: "nat (RearQueue q + 1) = Suc r" using b by (auto simp: r_def)
  have f1: "nat (FrontQueue q + 1) = Suc f" using b by (auto simp: f_def)
  have pq: "pending q = map (\<lambda>i. pay (MessageQueue q ! i)) [f..<Suc r]"
    using nemp by (simp add: pending_def r1 f_def pay_def)
  have upt: "[f..<Suc r] = f # [Suc f..<Suc r]" using fr by (simp add: upt_conv_Cons)
  from ne pq upt have e: "e = pay (MessageQueue q ! f)"
    and es: "es = map (\<lambda>i. pay (MessageQueue q ! i)) [Suc f..<Suc r]" by simp_all
  have ib: "in_bounds (MessageQueue q) (FrontQueue q)" using b len by (simp add: in_bounds_def)
  let ?mq = "(MessageQueue q)[f := (MessageQueue q ! f)\<lparr>switchPressed := -1\<rparr>]"
  have keep: "map (\<lambda>i. pay (?mq ! i)) [Suc f..<Suc r] = map (\<lambda>i. pay (MessageQueue q ! i)) [Suc f..<Suc r]"
    by (rule map_cong) auto
  show ?thesis
  proof (cases "FrontQueue q = RearQueue q")
    case True
    then have "f = r" by (simp add: f_def r_def)
    with es have "es = []" by simp
    with True nemp ib len show ?thesis
      by (simp add: dequeue_def queue_empty_def Let_def e pay_def f_def queue_inv_def pending_def)
  next
    case False
    with b have lt: "FrontQueue q < RearQueue q" by simp
    have "pending (q\<lparr>MessageQueue := ?mq, FrontQueue := FrontQueue q + 1\<rparr>) = es"
      using b lt keep
      by (simp add: pending_def queue_empty_def f1 r1 es pay_def del: upt_Suc)
    with False nemp ib len b lt show ?thesis
      by (simp add: dequeue_def queue_empty_def Let_def e pay_def f_def [symmetric]) 
         (simp add: queue_inv_def queue_empty_def)
  qed
qed


lemma fresh_length:
  "queue_inv q \<Longrightarrow> fresh q \<Longrightarrow> int (length (pending q)) = RearQueue q + 1"
  by (auto simp: length_pending fresh_def queue_inv_def queue_empty_def)

lemma enqueue_all_fresh:
  "queue_inv q \<Longrightarrow> fresh q \<Longrightarrow>
     \<exists>q'. enqueue_all es q = Some q' \<and> queue_inv q' \<and> fresh q'
          \<and> pending q' = pending q @ take (50 - length (pending q)) es"
proof (induction es arbitrary: q)
  case Nil
  then show ?case by simp
next
  case (Cons e es)
  obtain sp t where e: "e = (sp, t)" by (cases e)
  show ?case
  proof (cases "RearQueue q = 49")
    case True
    with Cons.prems have len: "length (pending q) = 50"
      using fresh_length [of q] by simp
    from Cons.IH [OF Cons.prems] len True show ?thesis
      by (simp add: e enqueue_full)
  next
    case False
    from enqueue_pending [OF Cons.prems(1) False, of sp t] Cons.prems(2)
    obtain q1 where q1: "enqueue sp t q = Some q1" "queue_inv q1" "fresh q1"
      "pending q1 = pending q @ [(sp, t)]" by blast
    from Cons.prems False have lt: "length (pending q) < 50"
      using fresh_length [of q] by (simp add: queue_inv_def queue_empty_def) linarith
    then have "50 - length (pending q) = Suc (50 - Suc (length (pending q)))" by arith
    then have tk: "take (50 - length (pending q)) (e # es) = e # take (50 - Suc (length (pending q))) es"
      by (simp only: take_Suc_Cons)
    from Cons.IH [OF q1(2,3)] q1 show ?thesis
      by (simp add: e [symmetric] tk) (simp add: e)
  qed
qed

lemma dequeue_n_pending:
  "queue_inv q \<Longrightarrow> n \<le> length (pending q) \<Longrightarrow>
     \<exists>q'. dequeue_n n q spt = Some (take n (pending q), q') \<and> queue_inv q'
          \<and> pending q' = drop n (pending q)"
proof (induction n arbitrary: q spt)
  case 0
  then show ?case by simp
next
  case (Suc n)
  then obtain e es where p: "pending q = e # es" by (cases "pending q") auto
  from dequeue_pending [OF Suc.prems(1) p, of spt]
  obtain q1 where q1: "dequeue q spt = Some (fst e, snd e, q1)" "queue_inv q1" "pending q1 = es"
    by blast
  from Suc.prems p q1 have "n \<le> length (pending q1)" by simp
  from Suc.IH [OF q1(2) this, of "snd e"] q1 p show ?case by auto
qed

lemma enqueue_all_full: "RearQueue q = 49 \<Longrightarrow> enqueue_all es q = Some q"
  by (induction es) (auto simp: enqueue_full)

lemma enqueue_all_append:
  "enqueue_all (xs @ ys) q = (case enqueue_all xs q of None \<Rightarrow> None | Some q1 \<Rightarrow> enqueue_all ys q1)"
  by (induction xs arbitrary: q) (auto split: option.splits)

lemma queue_init_inv: "queue_inv queue_init \<and> queue_empty queue_init"
  by (simp add: queue_inv_def queue_empty_def queue_init_def)

lemma push_then_pop:
  assumes inv: "queue_inv q" and emp: "queue_empty q" and len: "length ys \<le> 50"
  shows "\<exists>q1 q2. enqueue_all ys q = Some q1 \<and> queue_inv q1 \<and> fresh q1 \<and> pending q1 = ys
            \<and> dequeue_n (length ys) q1 spt = Some (ys, q2) \<and> queue_empty q2"
proof -
  have fr: "fresh q" using emp by (simp add: fresh_def)
  have pe: "pending q = []" using emp by (simp add: pending_def)
  from enqueue_all_fresh [OF inv fr, of ys] pe len
  obtain q1 where q1: "enqueue_all ys q = Some q1" "queue_inv q1" "fresh q1" "pending q1 = ys"
    by auto
  from dequeue_n_pending [OF q1(2), of "length ys" spt] q1(4)
  obtain q2 where q2: "dequeue_n (length ys) q1 spt = Some (ys, q2)"
    "queue_inv q2" "pending q2 = []" by auto
  from q2(2,3) have "queue_empty q2" by (simp add: pending_Nil_iff)
  with q1 q2 show ?thesis by blast
qed

lemma enqueue_changes_rear:
  assumes "RearQueue q \<noteq> 49"
  shows "enqueue sp t q \<noteq> Some q"
proof
  assume a: "enqueue sp t q = Some q"
  then have "map_option RearQueue (enqueue sp t q) = Some (RearQueue q)" by simp
  with assms show False
    by (simp add: enqueue_def MESSAGE_QUEUE_SZ_def Let_def split: if_splits)
qed

text \<open>
  Claim C5, as the source has it. A push leaves the queue as it is (with no error) if
  and only if the write cursor \<open>RearQueue\<close> is at the last slot, 49. In a queue that
  \<open>enqueue\<close> and \<open>dequeue\<close> can produce, any other push advances the write cursor by one
  and stores the event there, after the pending ones; and a queue that holds 50 pending
  events has its write cursor at 49, so a push onto a full queue is dropped.
\<close>

theorem C5_enqueue_drop:
  "(enqueue sp t q = Some q \<longleftrightarrow> RearQueue q = 49)
   \<and> (queue_inv q \<and> RearQueue q \<noteq> 49 \<longrightarrow>
        (\<exists>q'. enqueue sp t q = Some q' \<and> queue_inv q' \<and> pending q' = pending q @ [(sp, t)]
            \<and> RearQueue q' = RearQueue q + 1
            \<and> MessageQueue q' = (MessageQueue q)[nat (RearQueue q + 1) :=
                  \<lparr>switchPressed = sp, switchPressedTime = t\<rparr>]))
   \<and> (queue_inv q \<and> length (pending q) = 50 \<longrightarrow> RearQueue q = 49)"
proof (intro conjI impI)
  show "enqueue sp t q = Some q \<longleftrightarrow> RearQueue q = 49"
    using enqueue_changes_rear [of q sp t] enqueue_full [of q sp t] by blast
next
  assume "queue_inv q \<and> RearQueue q \<noteq> 49"
  then have "queue_inv q" "RearQueue q \<noteq> 49" by simp_all
  from enqueue_pending [OF this, of sp t]
  show "\<exists>q'. enqueue sp t q = Some q' \<and> queue_inv q' \<and> pending q' = pending q @ [(sp, t)]
            \<and> RearQueue q' = RearQueue q + 1
            \<and> MessageQueue q' = (MessageQueue q)[nat (RearQueue q + 1) :=
                  \<lparr>switchPressed = sp, switchPressedTime = t\<rparr>]"
    by blast
next
  assume "queue_inv q \<and> length (pending q) = 50"
  then show "RearQueue q = 49"
    by (auto simp: length_pending queue_inv_def queue_empty_def split: if_splits)
qed

theorem C5_enqueue_drop_witness:
  "queue_inv queue_init \<and> RearQueue queue_init \<noteq> 49
   \<and> (\<exists>q'. enqueue 1 5 queue_init = Some q' \<and> queue_inv q'
          \<and> pending q' = pending queue_init @ [(1, 5)]
          \<and> RearQueue q' = RearQueue queue_init + 1
          \<and> MessageQueue q' = (MessageQueue queue_init)[nat (RearQueue queue_init + 1) :=
                \<lparr>switchPressed = 1, switchPressedTime = 5\<rparr>])
   \<and> queue_inv queue_filled \<and> length (pending queue_filled) = 50
   \<and> RearQueue queue_filled = 49 \<and> enqueue 1 5 queue_filled = Some queue_filled"
proof -
  have a: "queue_inv queue_init \<and> RearQueue queue_init \<noteq> 49"
    by (simp add: queue_init_inv) (simp add: queue_init_def)
  have b: "queue_inv queue_filled \<and> length (pending queue_filled) = 50"
    by (simp add: queue_inv_def queue_filled_def pending_def queue_empty_def)
  from C5_enqueue_drop [of 1 5 queue_init] C5_enqueue_drop [of 1 5 queue_filled] a b
  show ?thesis by blast
qed

text \<open>
  The claim as written (dropped only when 50 events are pending) fails: after fifty
  pushes from startup and one pop, 49 events are pending and the next push is dropped.
\<close>

theorem C5_dropped_when_not_full_counterexample:
  "enqueue_all (replicate 50 (1, 0)) queue_init = Some queue_filled
   \<and> dequeue queue_filled 0 = Some (1, 0, queue_popped_once)
   \<and> length (pending queue_popped_once) = 49
   \<and> enqueue 2 7 queue_popped_once = Some queue_popped_once"
proof (intro conjI)
  show "enqueue_all (replicate 50 (1, 0)) queue_init = Some queue_filled"
    by code_simp
  show "dequeue queue_filled 0 = Some (1, 0, queue_popped_once)"
    by (simp add: dequeue_def queue_filled_def queue_popped_once_def in_bounds_def Let_def)
  show "length (pending queue_popped_once) = 49"
    by (simp add: pending_def queue_popped_once_def queue_empty_def)
  show "enqueue 2 7 queue_popped_once = Some queue_popped_once"
    by (simp add: enqueue_def queue_popped_once_def MESSAGE_QUEUE_SZ_def)
qed

text \<open>
  Claim C6. From an empty queue, pushing at most 50 events and popping as many times
  returns those events in the order pushed, source and tick unchanged, and leaves the
  queue empty; pushing more than 50 events gives the very queue that pushing the first
  50 gives, which pops as those 50 events; and popping from an empty queue returns
  \<open>-1\<close> in \<open>switchPressed\<close>, leaving \<open>switchPressedTime\<close> and the queue as they are.
\<close>

theorem C6_queue_fifo:
  assumes inv: "queue_inv q" and emp: "queue_empty q"
  shows "(length es \<le> 50 \<longrightarrow>
           (\<exists>q1 q2. enqueue_all es q = Some q1 \<and> pending q1 = es
                  \<and> dequeue_n (length es) q1 spt = Some (es, q2) \<and> queue_empty q2))
       \<and> (50 < length es \<longrightarrow>
           (\<exists>q1 q2. enqueue_all es q = Some q1 \<and> enqueue_all (take 50 es) q = Some q1
                  \<and> pending q1 = take 50 es
                  \<and> dequeue_n 50 q1 spt = Some (take 50 es, q2) \<and> queue_empty q2))
       \<and> dequeue q spt = Some (-1, spt, q)"
proof (intro conjI impI)
  assume "length es \<le> 50"
  from push_then_pop [OF inv emp this, of spt]
  show "\<exists>q1 q2. enqueue_all es q = Some q1 \<and> pending q1 = es
                  \<and> dequeue_n (length es) q1 spt = Some (es, q2) \<and> queue_empty q2"
    by blast
next
  assume l: "50 < length es"
  define ys where "ys = take 50 es"
  have ly: "length ys = 50" using l by (simp add: ys_def)
  then have "length ys \<le> 50" by simp
  from push_then_pop [OF inv emp this, of spt] ly
  obtain q1 q2 where 1: "enqueue_all ys q = Some q1" "queue_inv q1" "fresh q1" "pending q1 = ys"
    "dequeue_n 50 q1 spt = Some (ys, q2)" "queue_empty q2" by auto
  from fresh_length [OF 1(2,3)] 1(4) ly have full: "RearQueue q1 = 49" by simp
  have "enqueue_all es q = enqueue_all (ys @ drop 50 es) q" by (simp add: ys_def)
  also have "\<dots> = Some q1" by (simp only: enqueue_all_append 1(1) option.case enqueue_all_full [OF full])
  finally have "enqueue_all es q = Some q1" .
  with 1 show "\<exists>q1 q2. enqueue_all es q = Some q1 \<and> enqueue_all (take 50 es) q = Some q1
                  \<and> pending q1 = take 50 es
                  \<and> dequeue_n 50 q1 spt = Some (take 50 es, q2) \<and> queue_empty q2"
    unfolding ys_def by blast
next
  show "dequeue q spt = Some (-1, spt, q)" by (rule dequeue_empty [OF emp])
qed

theorem C6_queue_fifo_witness:
  "queue_inv queue_init \<and> queue_empty queue_init
   \<and> length [(1 :: i32, 5 :: i32), (2, 300)] \<le> 50
   \<and> (\<exists>q1 q2. enqueue_all [(1, 5), (2, 300)] queue_init = Some q1
          \<and> pending q1 = [(1, 5), (2, 300)]
          \<and> dequeue_n (length [(1 :: i32, 5 :: i32), (2, 300)]) q1 0 = Some ([(1, 5), (2, 300)], q2)
          \<and> queue_empty q2)
   \<and> 50 < length (replicate 51 (1 :: i32, 0 :: i32))
   \<and> (\<exists>q1 q2. enqueue_all (replicate 51 (1, 0)) queue_init = Some q1
          \<and> enqueue_all (take 50 (replicate 51 (1, 0))) queue_init = Some q1
          \<and> pending q1 = take 50 (replicate 51 (1, 0))
          \<and> dequeue_n 50 q1 0 = Some (take 50 (replicate 51 (1, 0)), q2) \<and> queue_empty q2)
   \<and> dequeue queue_init 0 = Some (-1, 0, queue_init)"
proof -
  have i: "queue_inv queue_init" and e: "queue_empty queue_init" using queue_init_inv by simp_all
  have l1: "length [(1 :: i32, 5 :: i32), (2, 300)] \<le> 50" by simp
  have l2: "50 < length (replicate 51 (1 :: i32, 0 :: i32))" by simp
  from C6_queue_fifo [OF i e, of "[(1, 5), (2, 300)]" 0]
       C6_queue_fifo [OF i e, of "replicate 51 (1, 0)" 0] i e l1 l2
  show ?thesis by blast
qed

section \<open>Properties of the control loop\<close>

subsection \<open>Elapsed ticks\<close>

lemma sint_bounds: "- 2147483648 \<le> sint (x :: i32) \<and> sint x < 2147483648"
  using sint_ge [of x] sint_lt [of x] by simp

lemma stb31: "- 2147483648 \<le> k \<Longrightarrow> k < 2147483648 \<Longrightarrow> signed_take_bit 31 k = (k :: int)"
  by (rule signed_take_bit_int_eq_self) simp_all

lemma sint_neg: "sint (x :: i32) \<noteq> - 2147483648 \<Longrightarrow> sint (- x) = - sint x"
  using sint_bounds [of x] by (simp add: sint_word_minus stb31)

lemma sint_diff_plain:
  "\<bar>sint (a :: i32) - sint b\<bar> < 2147483648 \<Longrightarrow> sint (a - b) = sint a - sint b"
  by (simp add: sint_word_diff stb31)

lemma elapsed_tick_distance:
  "tick_distance a b < 2147483648 \<Longrightarrow> elapsed a b = tick_distance a b"
proof -
  assume "tick_distance a b < 2147483648"
  then have ne: "sint (a - b) \<noteq> - 2147483648" by (auto simp: tick_distance_def)
  show ?thesis
    unfolding elapsed_def abs_i32_def tick_distance_def
    using sint_neg [OF ne] by (simp del: minus_diff_eq)
qed

lemma tick_distance_plain:
  "\<bar>sint a - sint b\<bar> < 2147483648 \<Longrightarrow> tick_distance a b = \<bar>sint a - sint b\<bar>"
  by (simp add: tick_distance_def sint_diff_plain)

lemma sint_of_nat_small: "n < 2147483648 \<Longrightarrow> sint (of_nat n :: i32) = int n"
  by (simp add: signed_of_nat stb31)

lemma tick_distance_after:
  "n < 2147483648 \<Longrightarrow> tick_distance (b + of_nat n) b = int n \<and> elapsed (b + of_nat n) b = int n"
proof -
  assume n: "n < 2147483648"
  then have "tick_distance (b + of_nat n) b = int n"
    by (simp add: tick_distance_def sint_of_nat_small)
  with n show ?thesis by (simp add: elapsed_tick_distance)
qed

lemma elapsed_same: "elapsed a a = 0"
  by (simp add: elapsed_def abs_i32_def)

subsection \<open>The bounce filter\<close>

lemma main_debounce_1:
  "main_debounce 1 s =
     (if elapsed (switchPressedTime_local s) (lastSwitch1Processed s) < 200 then (-1, s)
      else (1, s\<lparr>lastSwitch1Processed := switchPressedTime_local s\<rparr>))"
  by (simp add: main_debounce_def DEBOUNCE_TIME_def)

lemma main_debounce_2:
  "main_debounce 2 s =
     (if elapsed (switchPressedTime_local s) (lastSwitch2Processed s) < 200 then (-1, s)
      else (2, s\<lparr>lastSwitch2Processed := switchPressedTime_local s\<rparr>))"
  by (simp add: main_debounce_def DEBOUNCE_TIME_def)

lemma main_debounce_other: "sp \<noteq> 1 \<Longrightarrow> sp \<noteq> 2 \<Longrightarrow> main_debounce sp s = (sp, s)"
  by (simp add: main_debounce_def)

lemma main_step_rejected:
  "main_debounce sp s = (-1, s) \<Longrightarrow> main_step now sp s = main_step now (-1) s"
  by (simp add: main_step_def main_debounce_other)

lemma main_debounce_reject_1:
  "tick_distance (switchPressedTime_local s) (lastSwitch1Processed s) < 200 \<Longrightarrow>
     main_debounce 1 s = (-1, s)"
  by (simp add: main_debounce_1 elapsed_tick_distance)

lemma main_debounce_accept_1:
  "200 \<le> tick_distance (switchPressedTime_local s) (lastSwitch1Processed s) \<Longrightarrow>
   tick_distance (switchPressedTime_local s) (lastSwitch1Processed s) < 2147483648 \<Longrightarrow>
     main_debounce 1 s = (1, s\<lparr>lastSwitch1Processed := switchPressedTime_local s\<rparr>)"
  by (simp add: main_debounce_1 elapsed_tick_distance)

lemma main_debounce_reject_2:
  "tick_distance (switchPressedTime_local s) (lastSwitch2Processed s) < 200 \<Longrightarrow>
     main_debounce 2 s = (-1, s)"
  by (simp add: main_debounce_2 elapsed_tick_distance)

lemma main_debounce_accept_2:
  "200 \<le> tick_distance (switchPressedTime_local s) (lastSwitch2Processed s) \<Longrightarrow>
   tick_distance (switchPressedTime_local s) (lastSwitch2Processed s) < 2147483648 \<Longrightarrow>
     main_debounce 2 s = (2, s\<lparr>lastSwitch2Processed := switchPressedTime_local s\<rparr>)"
  by (simp add: main_debounce_2 elapsed_tick_distance)

text \<open>
  Claim C4. Each switch has its own last accepted tick. A dequeued event of switch 1
  with tick \<open>t\<close> whose distance to \<open>lastSwitch1Processed\<close> is below 200 is rejected:
  \<open>switchPressed\<close> becomes \<open>-1\<close>, the state (both last accepted ticks included) is
  unchanged, and the iteration runs as it does on an empty queue. At a distance of at
  least 200 (and below \<open>2 ^ 31\<close>, where \<open>abs\<close> is defined) it is accepted and
  \<open>lastSwitch1Processed\<close> becomes \<open>t\<close>. The same holds for switch 2 with
  \<open>lastSwitch2Processed\<close>; and the filter for one switch neither depends on nor changes
  the last accepted tick of the other.
\<close>


theorem C4_debounce:
  "(tick_distance t (lastSwitch1Processed s) < 200 \<longrightarrow>
      main_debounce 1 (s\<lparr>switchPressedTime_local := t\<rparr>) = (-1, s\<lparr>switchPressedTime_local := t\<rparr>)
      \<and> main_step now 1 (s\<lparr>switchPressedTime_local := t\<rparr>)
          = main_step now (-1) (s\<lparr>switchPressedTime_local := t\<rparr>))
   \<and> (200 \<le> tick_distance t (lastSwitch1Processed s)
        \<and> tick_distance t (lastSwitch1Processed s) < 2147483648 \<longrightarrow>
      main_debounce 1 (s\<lparr>switchPressedTime_local := t\<rparr>)
        = (1, s\<lparr>switchPressedTime_local := t, lastSwitch1Processed := t\<rparr>))
   \<and> (tick_distance t (lastSwitch2Processed s) < 200 \<longrightarrow>
      main_debounce 2 (s\<lparr>switchPressedTime_local := t\<rparr>) = (-1, s\<lparr>switchPressedTime_local := t\<rparr>)
      \<and> main_step now 2 (s\<lparr>switchPressedTime_local := t\<rparr>)
          = main_step now (-1) (s\<lparr>switchPressedTime_local := t\<rparr>))
   \<and> (200 \<le> tick_distance t (lastSwitch2Processed s)
        \<and> tick_distance t (lastSwitch2Processed s) < 2147483648 \<longrightarrow>
      main_debounce 2 (s\<lparr>switchPressedTime_local := t\<rparr>)
        = (2, s\<lparr>switchPressedTime_local := t, lastSwitch2Processed := t\<rparr>))
   \<and> main_debounce 1 (s\<lparr>lastSwitch2Processed := x\<rparr>)
       = (fst (main_debounce 1 s), (snd (main_debounce 1 s))\<lparr>lastSwitch2Processed := x\<rparr>)
   \<and> main_debounce 2 (s\<lparr>lastSwitch1Processed := x\<rparr>)
       = (fst (main_debounce 2 s), (snd (main_debounce 2 s))\<lparr>lastSwitch1Processed := x\<rparr>)"
proof -
  let ?u = "s\<lparr>switchPressedTime_local := t\<rparr>"
  have r1: "tick_distance t (lastSwitch1Processed s) < 200 \<Longrightarrow> main_debounce 1 ?u = (-1, ?u)"
    using main_debounce_reject_1 [of ?u] by simp
  have r2: "tick_distance t (lastSwitch2Processed s) < 200 \<Longrightarrow> main_debounce 2 ?u = (-1, ?u)"
    using main_debounce_reject_2 [of ?u] by simp
  have a1: "200 \<le> tick_distance t (lastSwitch1Processed s)
        \<and> tick_distance t (lastSwitch1Processed s) < 2147483648 \<Longrightarrow>
      main_debounce 1 ?u = (1, s\<lparr>switchPressedTime_local := t, lastSwitch1Processed := t\<rparr>)"
    using main_debounce_accept_1 [of ?u] by simp
  have a2: "200 \<le> tick_distance t (lastSwitch2Processed s)
        \<and> tick_distance t (lastSwitch2Processed s) < 2147483648 \<Longrightarrow>
      main_debounce 2 ?u = (2, s\<lparr>switchPressedTime_local := t, lastSwitch2Processed := t\<rparr>)"
    using main_debounce_accept_2 [of ?u] by simp
  have i1: "main_debounce 1 (s\<lparr>lastSwitch2Processed := x\<rparr>)
       = (fst (main_debounce 1 s), (snd (main_debounce 1 s))\<lparr>lastSwitch2Processed := x\<rparr>)"
    by (simp add: main_debounce_1)
  have i2: "main_debounce 2 (s\<lparr>lastSwitch1Processed := x\<rparr>)
       = (fst (main_debounce 2 s), (snd (main_debounce 2 s))\<lparr>lastSwitch1Processed := x\<rparr>)"
    by (simp add: main_debounce_2)
  from r1 r2 a1 a2 i1 i2 main_step_rejected [of 1 ?u now] main_step_rejected [of 2 ?u now]
  show ?thesis by blast
qed

theorem C4_debounce_witness:
  "tick_distance 100 (lastSwitch1Processed (main_init [] 0 0 0 0)) < 200
   \<and> main_debounce 1 ((main_init [] 0 0 0 0)\<lparr>switchPressedTime_local := 100\<rparr>)
       = (-1, (main_init [] 0 0 0 0)\<lparr>switchPressedTime_local := 100\<rparr>)
   \<and> tick_distance 100 (lastSwitch2Processed (main_init [] 0 0 0 0)) < 200
   \<and> main_debounce 2 ((main_init [] 0 0 0 0)\<lparr>switchPressedTime_local := 100\<rparr>)
       = (-1, (main_init [] 0 0 0 0)\<lparr>switchPressedTime_local := 100\<rparr>)
   \<and> 200 \<le> tick_distance 200 (lastSwitch1Processed (main_init [] 0 0 0 0))
   \<and> tick_distance 200 (lastSwitch1Processed (main_init [] 0 0 0 0)) < 2147483648
   \<and> main_debounce 1 ((main_init [] 0 0 0 0)\<lparr>switchPressedTime_local := 200\<rparr>)
       = (1, (main_init [] 0 0 0 0)\<lparr>switchPressedTime_local := 200, lastSwitch1Processed := 200\<rparr>)
   \<and> 200 \<le> tick_distance 200 (lastSwitch2Processed (main_init [] 0 0 0 0))
   \<and> tick_distance 200 (lastSwitch2Processed (main_init [] 0 0 0 0)) < 2147483648
   \<and> main_debounce 2 ((main_init [] 0 0 0 0)\<lparr>switchPressedTime_local := 200\<rparr>)
       = (2, (main_init [] 0 0 0 0)\<lparr>switchPressedTime_local := 200, lastSwitch2Processed := 200\<rparr>)"
proof -
  have d: "tick_distance 100 (lastSwitch1Processed (main_init [] 0 0 0 0)) < 200"
    "tick_distance 100 (lastSwitch2Processed (main_init [] 0 0 0 0)) < 200"
    "200 \<le> tick_distance 200 (lastSwitch1Processed (main_init [] 0 0 0 0))"
    "tick_distance 200 (lastSwitch1Processed (main_init [] 0 0 0 0)) < 2147483648"
    "200 \<le> tick_distance 200 (lastSwitch2Processed (main_init [] 0 0 0 0))"
    "tick_distance 200 (lastSwitch2Processed (main_init [] 0 0 0 0)) < 2147483648"
    by (simp_all add: tick_distance_def main_init_def)
  from C4_debounce [of 100 "main_init [] 0 0 0 0" 0 0] C4_debounce [of 200 "main_init [] 0 0 0 0" 0 0] d
  show ?thesis by blast
qed

subsection \<open>Effects of the branches\<close>

lemma led_bit_off [simp]: "(d AND - 3) AND 2 = (0 :: u32)"
  by (simp add: and.assoc)

lemma led_bit_on [simp]: "(d OR 2) AND 2 = (2 :: u32)"
  by (simp add: word_ao_absorbs)

lemma led_is_on_led_off [simp]: "\<not> led_is_on (led_off s)"
  by (simp add: led_is_on_def led_off_def)

lemma led_is_on_led_on [simp]: "led_is_on (led_on s)"
  by (simp add: led_is_on_def led_on_def)

lemma led_is_on_update [simp]:
  "led_is_on (s\<lparr>displayState := a\<rparr>) = led_is_on s"
  "led_is_on (s\<lparr>previousAlarmTicks := b\<rparr>) = led_is_on s"
  "led_is_on (s\<lparr>previousSW1Ticks := b\<rparr>) = led_is_on s"
  "led_is_on (s\<lparr>previousClockTicks := b\<rparr>) = led_is_on s"
  "led_is_on (s\<lparr>ledOnTicks := b\<rparr>) = led_is_on s"
  "led_is_on (s\<lparr>lastSwitch1Processed := b\<rparr>) = led_is_on s"
  "led_is_on (s\<lparr>lastSwitch2Processed := b\<rparr>) = led_is_on s"
  "led_is_on (s\<lparr>switchPressedTime_local := b\<rparr>) = led_is_on s"
  "led_is_on (s\<lparr>alarmHH := c\<rparr>) = led_is_on s"
  "led_is_on (s\<lparr>alarmMM := c\<rparr>) = led_is_on s"
  "led_is_on (s\<lparr>clockHH := c\<rparr>) = led_is_on s"
  "led_is_on (s\<lparr>clockMM := c\<rparr>) = led_is_on s"
  "led_is_on (s\<lparr>UART0_out := e\<rparr>) = led_is_on s"
  by (simp_all add: led_is_on_def)

lemmas step_defs = print_clock_def print_alarm_def increment_alarm_def decrement_alarm_def
  increment_clock_def case_prod_beta

lemma led_is_on_steps [simp]:
  "led_is_on (print_clock s) = led_is_on s"
  "led_is_on (print_alarm s) = led_is_on s"
  "led_is_on (increment_alarm s) = led_is_on s"
  "led_is_on (decrement_alarm s) = led_is_on s"
  "led_is_on (increment_clock s) = led_is_on s"
  by (simp_all add: step_defs)

lemma main_clock_minute_led [simp]: "led_is_on (main_clock_minute now s) = led_is_on s"
  by (simp add: main_clock_minute_def Let_def)

lemma main_clock_minute_fields [simp]:
  "displayState (main_clock_minute now s) = displayState s"
  "alarmHH (main_clock_minute now s) = alarmHH s"
  "alarmMM (main_clock_minute now s) = alarmMM s"
  "previousAlarmTicks (main_clock_minute now s) = previousAlarmTicks s"
  "previousSW1Ticks (main_clock_minute now s) = previousSW1Ticks s"
  "ledOnTicks (main_clock_minute now s) = ledOnTicks s"
  "lastSwitch1Processed (main_clock_minute now s) = lastSwitch1Processed s"
  "lastSwitch2Processed (main_clock_minute now s) = lastSwitch2Processed s"
  "GPIOF_DATA (main_clock_minute now s) = GPIOF_DATA s"
  by (simp_all add: main_clock_minute_def Let_def step_defs)

lemma main_clock_minute_out:
  "UART0_out (main_clock_minute now s) =
     UART0_out s @ (if DELAY_TIME_60 \<le> elapsed now (previousClockTicks s) \<and> displayState s = DISPLAY_CLOCK
                    then printTime (clockHH (main_clock_minute now s)) (clockMM (main_clock_minute now s))
                    else [])"
  by (simp add: main_clock_minute_def Let_def step_defs)

lemma main_clock_minute_clock:
  "(clockHH (main_clock_minute now s), clockMM (main_clock_minute now s)) =
     (if DELAY_TIME_60 \<le> elapsed now (previousClockTicks s)
      then incrementTime (clockHH s, clockMM s) else (clockHH s, clockMM s))"
  "previousClockTicks (main_clock_minute now s) =
     (if DELAY_TIME_60 \<le> elapsed now (previousClockTicks s) then now else previousClockTicks s)"
  by (simp_all add: main_clock_minute_def Let_def step_defs)

lemma main_switch2_effect:
  "\<not> led_is_on (main_switch2 now s)"
  "displayState (main_switch2 now s) = DISPLAY_ALARM"
  "(alarmHH (main_switch2 now s), alarmMM (main_switch2 now s)) = incrementTime (alarmHH s, alarmMM s)"
  "previousAlarmTicks (main_switch2 now s) = now"
  "UART0_out (main_switch2 now s) =
     UART0_out s @ printTime (alarmHH (main_switch2 now s)) (alarmMM (main_switch2 now s))"
  "clockHH (main_switch2 now s) = clockHH s"
  "clockMM (main_switch2 now s) = clockMM s"
  "previousClockTicks (main_switch2 now s) = previousClockTicks s"
  "lastSwitch1Processed (main_switch2 now s) = lastSwitch1Processed s"
  "lastSwitch2Processed (main_switch2 now s) = lastSwitch2Processed s"
  by (simp_all add: main_switch2_def Let_def step_defs led_off_def led_is_on_def)

subsection \<open>Switch 2\<close>


lemma queue_one_press_enqueue: "enqueue sp t queue_init = Some (queue_one_press sp t)"
  by (simp add: enqueue_def queue_init_def queue_one_press_def MESSAGE_QUEUE_SZ_def in_bounds_def)

lemma queue_one_press_dequeue:
  "dequeue (queue_one_press sp t) spt =
     Some (sp, t, (queue_one_press (-1) t)\<lparr>FrontQueue := -1, RearQueue := -1\<rparr>)"
  by (simp add: dequeue_def queue_one_press_def in_bounds_def Let_def)

lemma main_step_switch2_accepted:
  assumes "DEBOUNCE_TIME \<le> elapsed (switchPressedTime_local s) (lastSwitch2Processed s)"
  shows "main_step now 2 s =
     main_clock_minute now (main_switch2 now (s\<lparr>lastSwitch2Processed := switchPressedTime_local s\<rparr>))"
  using assms by (simp add: main_step_def main_debounce_def main_dispatch_def)

text \<open>
  Claim C1. In any state of the loop, an iteration that dequeues a press of switch 2
  which passes the bounce filter turns the led off, increments the alarm time by one
  minute, prints the alarm time, records \<open>now\<close> in \<open>previousAlarmTicks\<close> and sets the
  state to \<open>DISPLAY_ALARM\<close>. From the startup state (clock 12:12, alarm 0:00, state
  \<open>DISPLAY_CLOCK\<close>) the alarm time becomes 0:01 and is what is printed.
\<close>


theorem C1_switch2_accepted:
  assumes deq: "dequeue q (switchPressedTime_local s) = Some (2, t, q1)"
    and acc: "200 \<le> elapsed t (lastSwitch2Processed s)"
  shows "\<exists>s'. main_loop_body now q s = Some (q1, s')
      \<and> \<not> led_is_on s'
      \<and> (alarmHH s', alarmMM s') = incrementTime (alarmHH s, alarmMM s)
      \<and> UART0_out s' = UART0_out s @ printTime (alarmHH s') (alarmMM s')
      \<and> previousAlarmTicks s' = now
      \<and> displayState s' = DISPLAY_ALARM
      \<and> (s = main_init banner data ticks1 ticks2 spt \<longrightarrow>
            alarmHH s' = 0 \<and> alarmMM s' = 1
            \<and> UART0_out s' = banner @ printTime 12 12 @ printTime 0 1)"
proof -
  define u where "u = s\<lparr>switchPressedTime_local := t\<rparr>"
  define s' where "s' = main_step now 2 u"
  have body: "main_loop_body now q s = Some (q1, s')"
    by (simp add: main_loop_body_def deq s'_def u_def)
  from acc have "DEBOUNCE_TIME \<le> elapsed (switchPressedTime_local u) (lastSwitch2Processed u)"
    by (simp add: u_def DEBOUNCE_TIME_def)
  from main_step_switch2_accepted [OF this, of now]
  have st: "s' = main_clock_minute now (main_switch2 now (u\<lparr>lastSwitch2Processed := switchPressedTime_local u\<rparr>))"
    by (simp add: s'_def)
  have 1: "\<not> led_is_on s'" by (simp add: st main_switch2_effect)
  have 2: "(alarmHH s', alarmMM s') = incrementTime (alarmHH s, alarmMM s)"
    by (simp add: st main_switch2_effect) (simp add: u_def)
  have 5: "displayState s' = DISPLAY_ALARM" by (simp add: st main_switch2_effect)
  have 3: "UART0_out s' = UART0_out s @ printTime (alarmHH s') (alarmMM s')"
    by (simp add: st main_clock_minute_out main_switch2_effect(2)) (simp add: main_switch2_effect(5) u_def)
  have 4: "previousAlarmTicks s' = now" by (simp add: st main_switch2_effect)
  have 6: "s = main_init banner data ticks1 ticks2 spt \<longrightarrow>
            alarmHH s' = 0 \<and> alarmMM s' = 1
            \<and> UART0_out s' = banner @ printTime 12 12 @ printTime 0 1"
  proof
    assume i: "s = main_init banner data ticks1 ticks2 spt"
    from 2 i have a: "alarmHH s' = 0 \<and> alarmMM s' = 1" by (simp add: main_init_def)
    with 3 i show "alarmHH s' = 0 \<and> alarmMM s' = 1
            \<and> UART0_out s' = banner @ printTime 12 12 @ printTime 0 1"
      by (simp add: main_init_def)
  qed
  from body 1 2 3 4 5 6 show ?thesis by blast
qed

theorem C1_switch2_accepted_witness:
  "dequeue (queue_one_press 2 500) (switchPressedTime_local (main_init [] 0 0 0 0))
     = Some (2, 500, (queue_one_press (-1) 500)\<lparr>FrontQueue := -1, RearQueue := -1\<rparr>)
   \<and> 200 \<le> elapsed 500 (lastSwitch2Processed (main_init [] 0 0 0 0))
   \<and> (\<exists>s'. main_loop_body 600 (queue_one_press 2 500) (main_init [] 0 0 0 0)
             = Some ((queue_one_press (-1) 500)\<lparr>FrontQueue := -1, RearQueue := -1\<rparr>, s')
      \<and> displayState s' = DISPLAY_ALARM \<and> alarmHH s' = 0 \<and> alarmMM s' = 1
      \<and> UART0_out s' = printTime 12 12 @ printTime 0 1)"
proof -
  have d: "dequeue (queue_one_press 2 500) (switchPressedTime_local (main_init [] 0 0 0 0))
     = Some (2, 500, (queue_one_press (-1) 500)\<lparr>FrontQueue := -1, RearQueue := -1\<rparr>)"
    by (rule queue_one_press_dequeue)
  have a: "200 \<le> elapsed 500 (lastSwitch2Processed (main_init [] 0 0 0 0))"
    by (simp add: main_init_def elapsed_def abs_i32_def)
  from C1_switch2_accepted [OF d a, of 600 "[]" 0 0 0 0] d a show ?thesis by auto
qed

subsection \<open>The branch without accepted input\<close>

lemma no_input_debounce: "no_input sp s \<Longrightarrow> snd (main_debounce sp s) = s"
  by (auto simp: no_input_def main_debounce_def split: if_splits)

lemma main_step_no_input:
  "no_input sp s \<Longrightarrow> main_step now sp s = main_clock_minute now (main_no_input now s)"
  using no_input_debounce [of sp s]
  by (cases "main_debounce sp s") (auto simp: main_step_def no_input_def main_dispatch_def)

lemma main_step_switch1_accepted:
  assumes "DEBOUNCE_TIME \<le> elapsed (switchPressedTime_local s) (lastSwitch1Processed s)"
  shows "main_step now 1 s =
     main_clock_minute now (main_switch1 now (s\<lparr>lastSwitch1Processed := switchPressedTime_local s\<rparr>))"
  using assms by (simp add: main_step_def main_debounce_def main_dispatch_def)

lemma main_arming_timeout_fields [simp]:
  "led_is_on (main_arming_timeout now s) = led_is_on s"
  "alarmHH (main_arming_timeout now s) = alarmHH s"
  "alarmMM (main_arming_timeout now s) = alarmMM s"
  "clockHH (main_arming_timeout now s) = clockHH s"
  "clockMM (main_arming_timeout now s) = clockMM s"
  "previousClockTicks (main_arming_timeout now s) = previousClockTicks s"
  "previousAlarmTicks (main_arming_timeout now s) = previousAlarmTicks s"
  "ledOnTicks (main_arming_timeout now s) = ledOnTicks s"
  "(displayState (main_arming_timeout now s) = DISPLAY_ALARM) = (displayState s = DISPLAY_ALARM)"
  by (auto simp: main_arming_timeout_def step_defs)

lemma main_arming_timeout_alarm:
  "displayState s = DISPLAY_ALARM \<Longrightarrow> main_arming_timeout now s = s"
  by (simp add: main_arming_timeout_def)

lemma main_alarm_countdown_idle:
  "displayState s \<noteq> DISPLAY_ALARM \<Longrightarrow> main_alarm_countdown now s = s"
  by (simp add: main_alarm_countdown_def)

lemma main_alarm_countdown_fire:
  assumes "displayState s = DISPLAY_ALARM" "DELAY_TIME_60 \<le> elapsed now (previousAlarmTicks s)"
    "decrementTime (alarmHH s, alarmMM s) = (0, 0)"
  shows "main_alarm_countdown now s =
     print_clock ((led_on (s\<lparr>alarmHH := 0, alarmMM := 0, displayState := DISPLAY_CLOCK\<rparr>))\<lparr>ledOnTicks := now\<rparr>)"
  using assms by (simp add: main_alarm_countdown_def decrement_alarm_def Let_def)

lemma main_alarm_countdown_alarm:
  assumes "displayState s = DISPLAY_ALARM" "DELAY_TIME_60 \<le> elapsed now (previousAlarmTicks s)"
  shows "(alarmHH (main_alarm_countdown now s), alarmMM (main_alarm_countdown now s))
           = decrementTime (alarmHH s, alarmMM s)"
  using assms by (simp add: main_alarm_countdown_def Let_def step_defs led_on_def)

lemma main_alarm_countdown_clock [simp]:
  "clockHH (main_alarm_countdown now s) = clockHH s"
  "clockMM (main_alarm_countdown now s) = clockMM s"
  "previousClockTicks (main_alarm_countdown now s) = previousClockTicks s"
  by (simp_all add: main_alarm_countdown_def Let_def step_defs led_on_def)

lemma main_led_timeout_fields [simp]:
  "displayState (main_led_timeout now s) = displayState s"
  "alarmHH (main_led_timeout now s) = alarmHH s"
  "alarmMM (main_led_timeout now s) = alarmMM s"
  "clockHH (main_led_timeout now s) = clockHH s"
  "clockMM (main_led_timeout now s) = clockMM s"
  "previousClockTicks (main_led_timeout now s) = previousClockTicks s"
  "ledOnTicks (main_led_timeout now s) = ledOnTicks s"
  "UART0_out (main_led_timeout now s) = UART0_out s"
  by (simp_all add: main_led_timeout_def led_off_def)

lemma main_led_timeout_led:
  "led_is_on (main_led_timeout now s) = (led_is_on s \<and> elapsed now (ledOnTicks s) < DELAY_TIME_15)"
  by (auto simp: main_led_timeout_def)

lemma main_alarm_countdown_led_stays:
  assumes "led_is_on s" "elapsed now (ledOnTicks s) < DELAY_TIME_15"
  shows "led_is_on (main_alarm_countdown now s)
         \<and> elapsed now (ledOnTicks (main_alarm_countdown now s)) < DELAY_TIME_15"
  using assms
  by (simp add: main_alarm_countdown_def Let_def step_defs led_on_def led_is_on_def elapsed_same DELAY_TIME_15_def)

subsection \<open>The minute of the clock\<close>

lemma main_debounce_clock [simp]:
  "clockHH (snd (main_debounce sp s)) = clockHH s"
  "clockMM (snd (main_debounce sp s)) = clockMM s"
  "previousClockTicks (snd (main_debounce sp s)) = previousClockTicks s"
  by (simp_all add: main_debounce_def)

lemma main_switch1_clock [simp]:
  "clockHH (main_switch1 now s) = clockHH s"
  "clockMM (main_switch1 now s) = clockMM s"
  "previousClockTicks (main_switch1 now s) = previousClockTicks s"
  by (simp_all add: main_switch1_def Let_def step_defs led_off_def)

lemma main_dispatch_clock [simp]:
  "clockHH (main_dispatch now sp s) = clockHH s"
  "clockMM (main_dispatch now sp s) = clockMM s"
  "previousClockTicks (main_dispatch now sp s) = previousClockTicks s"
  by (simp_all add: main_dispatch_def main_no_input_def main_switch2_effect)

lemma dequeue_total: "queue_inv q \<Longrightarrow> \<exists>r. dequeue q spt = Some r"
  by (auto simp: dequeue_def queue_inv_def queue_empty_def in_bounds_def Let_def)

lemma main_loop_body_total: "queue_inv q \<Longrightarrow> \<exists>q1 s1. main_loop_body now q s = Some (q1, s1)"
  using dequeue_total [of q "switchPressedTime_local s"]
  by (auto simp: main_loop_body_def)

lemma main_loop_body_Some:
  "main_loop_body now q s = Some (q1, s1) \<Longrightarrow>
     \<exists>sp t. dequeue q (switchPressedTime_local s) = Some (sp, t, q1)
           \<and> s1 = main_step now sp (s\<lparr>switchPressedTime_local := t\<rparr>)"
  by (auto simp: main_loop_body_def split: option.splits)

lemma main_step_clock_minute:
  "\<exists>m. main_step now sp s = main_clock_minute now m
       \<and> clockHH m = clockHH s \<and> clockMM m = clockMM s
       \<and> previousClockTicks m = previousClockTicks s"
proof -
  obtain sp1 s1 where d: "main_debounce sp s = (sp1, s1)" by (cases "main_debounce sp s")
  have "s1 = snd (main_debounce sp s)" by (simp add: d)
  then have "clockHH s1 = clockHH s \<and> clockMM s1 = clockMM s
       \<and> previousClockTicks s1 = previousClockTicks s" by simp
  then show ?thesis
    by (intro exI [of _ "main_dispatch now sp1 s1"]) (simp add: main_step_def d)
qed

text \<open>
  Claim C3. Every iteration ends with the minute check of the clock, applied to a state
  \<open>m\<close> in which the branches before it have left the clock time and
  \<open>previousClockTicks\<close> untouched, whatever was dequeued and whether it was accepted or
  rejected: at 60000 ticks or more since \<open>previousClockTicks\<close> the clock time is
  incremented and \<open>previousClockTicks\<close> becomes \<open>now\<close>, otherwise both stay; the clock
  is printed by the check exactly when it has advanced and the state is
  \<open>DISPLAY_CLOCK\<close>. An iteration on a queue satisfying \<open>queue_inv\<close> always completes.
\<close>

theorem C3_clock_minute:
  "(queue_inv q \<longrightarrow> (\<exists>q1 s1. main_loop_body now q s = Some (q1, s1)))
   \<and> (main_loop_body now q s = Some (q1, s1) \<longrightarrow>
        (\<exists>m. s1 = main_clock_minute now m
            \<and> clockHH m = clockHH s \<and> clockMM m = clockMM s
            \<and> previousClockTicks m = previousClockTicks s
            \<and> displayState s1 = displayState m
            \<and> UART0_out s1 = UART0_out m @
                (if 60000 \<le> elapsed now (previousClockTicks s) \<and> displayState s1 = DISPLAY_CLOCK
                 then printTime (clockHH s1) (clockMM s1) else []))
        \<and> (60000 \<le> elapsed now (previousClockTicks s) \<longrightarrow>
              (clockHH s1, clockMM s1) = incrementTime (clockHH s, clockMM s)
              \<and> previousClockTicks s1 = now)
        \<and> (elapsed now (previousClockTicks s) < 60000 \<longrightarrow>
              clockHH s1 = clockHH s \<and> clockMM s1 = clockMM s
              \<and> previousClockTicks s1 = previousClockTicks s))"
proof (intro conjI impI)
  assume "queue_inv q"
  then show "\<exists>q1 s1. main_loop_body now q s = Some (q1, s1)" by (rule main_loop_body_total)
next
  assume b: "main_loop_body now q s = Some (q1, s1)"
  from main_loop_body_Some [OF b] obtain sp t where
    s1: "s1 = main_step now sp (s\<lparr>switchPressedTime_local := t\<rparr>)" by blast
  from main_step_clock_minute [of now sp "s\<lparr>switchPressedTime_local := t\<rparr>"] s1
  obtain m where m: "s1 = main_clock_minute now m" "clockHH m = clockHH s" "clockMM m = clockMM s"
    "previousClockTicks m = previousClockTicks s" by auto
  have out: "UART0_out s1 = UART0_out m @
                (if 60000 \<le> elapsed now (previousClockTicks s) \<and> displayState s1 = DISPLAY_CLOCK
                 then printTime (clockHH s1) (clockMM s1) else [])"
    unfolding m(1) using m(4) by (simp add: main_clock_minute_out DELAY_TIME_60_def)
  have ds: "displayState s1 = displayState m" by (simp add: m(1))
  from m out ds show "\<exists>m. s1 = main_clock_minute now m
            \<and> clockHH m = clockHH s \<and> clockMM m = clockMM s
            \<and> previousClockTicks m = previousClockTicks s
            \<and> displayState s1 = displayState m
            \<and> UART0_out s1 = UART0_out m @
                (if 60000 \<le> elapsed now (previousClockTicks s) \<and> displayState s1 = DISPLAY_CLOCK
                 then printTime (clockHH s1) (clockMM s1) else [])" by blast
  {
    assume e: "60000 \<le> elapsed now (previousClockTicks s)"
    with main_clock_minute_clock [of now m] m
    show "(clockHH s1, clockMM s1) = incrementTime (clockHH s, clockMM s)"
      and "previousClockTicks s1 = now"
      by (simp_all add: DELAY_TIME_60_def)
  }
  {
    assume e: "elapsed now (previousClockTicks s) < 60000"
    with main_clock_minute_clock [of now m] m
    show "clockHH s1 = clockHH s" and "clockMM s1 = clockMM s"
      and "previousClockTicks s1 = previousClockTicks s"
      by (simp_all add: DELAY_TIME_60_def)
  }
qed

theorem C3_clock_minute_witness:
  "queue_inv queue_init
   \<and> main_loop_body 60000 queue_init (main_init [] 0 0 0 0)
       = Some (queue_init, main_step 60000 (-1) (main_init [] 0 0 0 0))
   \<and> 60000 \<le> elapsed 60000 (previousClockTicks (main_init [] 0 0 0 0))
   \<and> (clockHH (main_step 60000 (-1) (main_init [] 0 0 0 0)),
       clockMM (main_step 60000 (-1) (main_init [] 0 0 0 0))) = (12, 13)
   \<and> previousClockTicks (main_step 60000 (-1) (main_init [] 0 0 0 0)) = 60000
   \<and> main_loop_body 59999 queue_init (main_init [] 0 0 0 0)
       = Some (queue_init, main_step 59999 (-1) (main_init [] 0 0 0 0))
   \<and> elapsed 59999 (previousClockTicks (main_init [] 0 0 0 0)) < 60000
   \<and> clockHH (main_step 59999 (-1) (main_init [] 0 0 0 0)) = 12
   \<and> clockMM (main_step 59999 (-1) (main_init [] 0 0 0 0)) = 12"
proof -
  let ?s = "main_init [] 0 0 0 0"
  have qi: "queue_inv queue_init" by (simp add: queue_init_inv)
  have b: "main_loop_body now queue_init ?s = Some (queue_init, main_step now (-1) ?s)" for now
    by (simp add: main_loop_body_def dequeue_def queue_init_def)
  have e1: "60000 \<le> elapsed 60000 (previousClockTicks ?s)"
    and e2: "elapsed 59999 (previousClockTicks ?s) < 60000"
    by (simp_all add: main_init_def elapsed_def abs_i32_def)
  note t1 = C3_clock_minute [of queue_init 60000 ?s queue_init "main_step 60000 (-1) ?s",
      THEN conjunct2, rule_format, OF b, THEN conjunct2, THEN conjunct1, rule_format, OF e1]
  note t2 = C3_clock_minute [of queue_init 59999 ?s queue_init "main_step 59999 (-1) ?s",
      THEN conjunct2, rule_format, OF b, THEN conjunct2, THEN conjunct2, rule_format, OF e2]
  have c: "incrementTime (clockHH ?s, clockMM ?s) = (12, 13)" "clockHH ?s = 12" "clockMM ?s = 12"
    by (simp_all add: main_init_def)
  from t1 c have r1: "(clockHH (main_step 60000 (-1) ?s), clockMM (main_step 60000 (-1) ?s)) = (12, 13)"
    "previousClockTicks (main_step 60000 (-1) ?s) = 60000" by (simp_all only:)
  from t2 c have r2: "clockHH (main_step 59999 (-1) ?s) = 12" "clockMM (main_step 59999 (-1) ?s) = 12"
    by (simp_all only:)
  from qi b [of 60000] b [of 59999] e1 e2 r1 r2 show ?thesis by (intro conjI)
qed

subsection \<open>The alarm time outside the countdown\<close>

lemma main_dispatch_alarm:
  assumes "displayState (main_dispatch now sp s) \<noteq> DISPLAY_ALARM"
  shows "(alarmHH (main_dispatch now sp s) = 0 \<and> alarmMM (main_dispatch now sp s) = 0)
       \<or> (displayState s \<noteq> DISPLAY_ALARM
           \<and> alarmHH (main_dispatch now sp s) = alarmHH s
           \<and> alarmMM (main_dispatch now sp s) = alarmMM s)"
proof -
  consider (two) "sp = 2" | (one) "sp \<noteq> 2" "sp = 1" | (none) "sp \<noteq> 2" "sp \<noteq> 1" by blast
  then show ?thesis
  proof cases
    case two
    with assms show ?thesis by (simp add: main_dispatch_def main_switch2_effect)
  next
    case one
    with assms show ?thesis
      by (auto simp add: main_dispatch_def main_switch1_def Let_def step_defs led_off_def
          simp del: decrementTime.simps split: if_splits)
  next
    case none
    with assms show ?thesis
      by (auto simp add: main_dispatch_def main_no_input_def main_arming_timeout_def
          main_alarm_countdown_def Let_def step_defs led_on_def
          simp del: decrementTime.simps split: if_splits)
  qed
qed

lemma main_debounce_alarm [simp]:
  "displayState (snd (main_debounce sp s)) = displayState s"
  "alarmHH (snd (main_debounce sp s)) = alarmHH s"
  "alarmMM (snd (main_debounce sp s)) = alarmMM s"
  by (simp_all add: main_debounce_def)

lemma main_step_alarm:
  assumes "displayState (main_step now sp s) \<noteq> DISPLAY_ALARM"
  shows "(alarmHH (main_step now sp s) = 0 \<and> alarmMM (main_step now sp s) = 0)
       \<or> (displayState s \<noteq> DISPLAY_ALARM
           \<and> alarmHH (main_step now sp s) = alarmHH s
           \<and> alarmMM (main_step now sp s) = alarmMM s)"
proof -
  obtain sp1 s1 where d: "main_debounce sp s = (sp1, s1)" by (cases "main_debounce sp s")
  then have s1: "s1 = snd (main_debounce sp s)" by simp
  have st: "main_step now sp s = main_clock_minute now (main_dispatch now sp1 s1)"
    by (simp add: main_step_def d)
  from assms have "displayState (main_dispatch now sp1 s1) \<noteq> DISPLAY_ALARM" by (simp add: st)
  from main_dispatch_alarm [OF this] show ?thesis by (simp add: st s1)
qed

lemma reachable_alarm_idle:
  "reachable s \<Longrightarrow> displayState s \<noteq> DISPLAY_ALARM \<Longrightarrow> alarmHH s = 0 \<and> alarmMM s = 0"
proof (induction rule: reachable.induct)
  case (reachable_init banner data ticks1 ticks2 spt)
  show ?case by (simp add: main_init_def)
next
  case (reachable_step s now q q1 s1)
  from main_loop_body_Some [OF reachable_step.hyps(2)] obtain sp t where
    s1: "s1 = main_step now sp (s\<lparr>switchPressedTime_local := t\<rparr>)" by blast
  from reachable_step.prems have "displayState (main_step now sp (s\<lparr>switchPressedTime_local := t\<rparr>)) \<noteq> DISPLAY_ALARM"
    by (simp add: s1)
  from main_step_alarm [OF this] reachable_step.IH show ?case by (auto simp: s1)
qed

text \<open>
  Claim C10. In every state reachable from startup, the alarm time is 0:00 whenever the
  display state is \<open>DISPLAY_CLOCK\<close> or \<open>DISPLAY_ALARM_INIT\<close>; so a nonzero alarm time
  is held only in \<open>DISPLAY_ALARM\<close>. And in any state, an iteration that leaves
  \<open>DISPLAY_ALARM\<close> leaves the alarm time at 0:00.
\<close>

theorem C10_alarm_idle:
  "(reachable s \<longrightarrow>
      (displayState s = DISPLAY_CLOCK \<or> displayState s = DISPLAY_ALARM_INIT \<longrightarrow>
         alarmHH s = 0 \<and> alarmMM s = 0)
      \<and> (alarmHH s \<noteq> 0 \<or> alarmMM s \<noteq> 0 \<longrightarrow> displayState s = DISPLAY_ALARM))
   \<and> (displayState s = DISPLAY_ALARM \<and> main_loop_body now q s = Some (q1, s1)
        \<and> displayState s1 \<noteq> DISPLAY_ALARM \<longrightarrow>
         alarmHH s1 = 0 \<and> alarmMM s1 = 0)"
proof (intro conjI impI)
  assume r: "reachable s"
  {
    assume "displayState s = DISPLAY_CLOCK \<or> displayState s = DISPLAY_ALARM_INIT"
    then have "displayState s \<noteq> DISPLAY_ALARM" by auto
    from reachable_alarm_idle [OF r this] show "alarmHH s = 0" and "alarmMM s = 0" by simp_all
  }
  {
    assume "alarmHH s \<noteq> 0 \<or> alarmMM s \<noteq> 0"
    with reachable_alarm_idle [OF r] show "displayState s = DISPLAY_ALARM" by blast
  }
next
  assume a: "displayState s = DISPLAY_ALARM \<and> main_loop_body now q s = Some (q1, s1)
        \<and> displayState s1 \<noteq> DISPLAY_ALARM"
  then have b: "main_loop_body now q s = Some (q1, s1)" by simp
  from main_loop_body_Some [OF b] obtain sp t where
    s1: "s1 = main_step now sp (s\<lparr>switchPressedTime_local := t\<rparr>)" by blast
  from a have "displayState (main_step now sp (s\<lparr>switchPressedTime_local := t\<rparr>)) \<noteq> DISPLAY_ALARM"
    by (simp add: s1)
  from main_step_alarm [OF this] a
  show "alarmHH s1 = 0" and "alarmMM s1 = 0" by (auto simp: s1)
qed

lemmas loop_defs = main_step_def main_debounce_def main_dispatch_def main_switch1_def
  main_switch2_def main_no_input_def main_arming_timeout_def main_alarm_countdown_def
  main_led_timeout_def main_clock_minute_def led_is_on_def led_on_def led_off_def step_defs
  elapsed_def abs_i32_def DEBOUNCE_TIME_def DELAY_TIME_10_def DELAY_TIME_15_def DELAY_TIME_60_def
  Let_def

theorem C10_alarm_idle_witness:
  "reachable (main_init [] 0 0 0 0)
   \<and> (displayState (main_init [] 0 0 0 0) = DISPLAY_CLOCK
        \<or> displayState (main_init [] 0 0 0 0) = DISPLAY_ALARM_INIT)
   \<and> alarmHH (main_init [] 0 0 0 0) = 0 \<and> alarmMM (main_init [] 0 0 0 0) = 0
   \<and> reachable (main_step 600 2 ((main_init [] 0 0 0 0)\<lparr>switchPressedTime_local := 500\<rparr>))
   \<and> alarmMM (main_step 600 2 ((main_init [] 0 0 0 0)\<lparr>switchPressedTime_local := 500\<rparr>)) = 1
   \<and> displayState (main_step 600 2 ((main_init [] 0 0 0 0)\<lparr>switchPressedTime_local := 500\<rparr>))
       = DISPLAY_ALARM
   \<and> displayState ((main_init [] 0 0 0 0)\<lparr>displayState := DISPLAY_ALARM, alarmMM := 1\<rparr>) = DISPLAY_ALARM
   \<and> main_loop_body 60000 queue_init ((main_init [] 0 0 0 0)\<lparr>displayState := DISPLAY_ALARM, alarmMM := 1\<rparr>)
       = Some (queue_init,
               main_step 60000 (-1) ((main_init [] 0 0 0 0)\<lparr>displayState := DISPLAY_ALARM, alarmMM := 1\<rparr>))
   \<and> displayState (main_step 60000 (-1)
         ((main_init [] 0 0 0 0)\<lparr>displayState := DISPLAY_ALARM, alarmMM := 1\<rparr>)) \<noteq> DISPLAY_ALARM
   \<and> alarmHH (main_step 60000 (-1)
         ((main_init [] 0 0 0 0)\<lparr>displayState := DISPLAY_ALARM, alarmMM := 1\<rparr>)) = 0
   \<and> alarmMM (main_step 60000 (-1)
         ((main_init [] 0 0 0 0)\<lparr>displayState := DISPLAY_ALARM, alarmMM := 1\<rparr>)) = 0"
proof -
  let ?s = "main_init [] 0 0 0 0"
  let ?x = "main_step 600 2 (?s\<lparr>switchPressedTime_local := 500\<rparr>)"
  let ?a = "?s\<lparr>displayState := DISPLAY_ALARM, alarmMM := 1\<rparr>"
  have r0: "reachable ?s" by (rule reachable_init)
  have d0: "displayState ?s = DISPLAY_CLOCK \<or> displayState ?s = DISPLAY_ALARM_INIT"
    by (simp add: main_init_def)
  have "main_loop_body 600 (queue_one_press 2 500) ?s
      = Some ((queue_one_press (-1) 500)\<lparr>FrontQueue := -1, RearQueue := -1\<rparr>, ?x)"
    by (simp add: main_loop_body_def queue_one_press_dequeue)
  from reachable_step [OF r0 this] have rx: "reachable ?x" .
  have one: "alarmMM ?x = 1"
    by (simp add: main_init_def loop_defs)
  then have nz: "alarmHH ?x \<noteq> 0 \<or> alarmMM ?x \<noteq> 0" by simp
  have da: "displayState ?a = DISPLAY_ALARM" by simp
  have b: "main_loop_body 60000 queue_init ?a = Some (queue_init, main_step 60000 (-1) ?a)"
    by (simp add: main_loop_body_def dequeue_def queue_init_def main_init_def)
  have out: "displayState (main_step 60000 (-1) ?a) \<noteq> DISPLAY_ALARM"
    by (simp add: main_init_def loop_defs)
  note i1 = C10_alarm_idle [of ?s, THEN conjunct1, rule_format, OF r0, THEN conjunct1, rule_format, OF d0]
  note i2 = C10_alarm_idle [of ?x, THEN conjunct1, rule_format, OF rx, THEN conjunct2, rule_format, OF nz]
  have h3: "displayState ?a = DISPLAY_ALARM
      \<and> main_loop_body 60000 queue_init ?a = Some (queue_init, main_step 60000 (-1) ?a)
      \<and> displayState (main_step 60000 (-1) ?a) \<noteq> DISPLAY_ALARM"
    using da b out by (intro conjI)
  note i3 = C10_alarm_idle [of ?a 60000 queue_init queue_init "main_step 60000 (-1) ?a",
      THEN conjunct2, rule_format, OF h3]
  from r0 d0 i1 rx one i2 da b out i3 show ?thesis by (intro conjI) blast+
qed

subsection \<open>Alarm expiry and the led\<close>

lemma main_step_led_in_alarm:
  assumes "led_is_on (main_step now sp s)" "displayState (main_step now sp s) = DISPLAY_ALARM"
  shows "led_is_on s \<and> displayState s = DISPLAY_ALARM"
proof -
  obtain sp1 s1 where d: "main_debounce sp s = (sp1, s1)" by (cases "main_debounce sp s")
  then have s1: "s1 = snd (main_debounce sp s)" by simp
  have l1: "led_is_on s1 = led_is_on s" unfolding s1 by (simp add: main_debounce_def)
  have st: "main_step now sp s = main_clock_minute now (main_dispatch now sp1 s1)"
    by (simp add: main_step_def d)
  from assms have m: "led_is_on (main_dispatch now sp1 s1)"
    "displayState (main_dispatch now sp1 s1) = DISPLAY_ALARM" by (simp_all add: st)
  consider (two) "sp1 = 2" | (one) "sp1 \<noteq> 2" "sp1 = 1" | (none) "sp1 \<noteq> 2" "sp1 \<noteq> 1" by blast
  then have "led_is_on s1 \<and> displayState s1 = DISPLAY_ALARM"
  proof cases
    case two
    with m show ?thesis by (simp add: main_dispatch_def main_switch2_effect)
  next
    case one
    with m show ?thesis
      by (auto simp add: main_dispatch_def main_switch1_def Let_def step_defs
          simp del: decrementTime.simps split: if_splits)
  next
    case none
    with m show ?thesis
      by (auto simp add: main_dispatch_def main_no_input_def main_arming_timeout_def
          main_alarm_countdown_def main_led_timeout_led Let_def step_defs led_on_def
          simp del: decrementTime.simps split: if_splits)
  qed
  then show ?thesis by (simp add: l1) (simp add: s1)
qed

lemma reachable_led_not_alarm:
  "reachable s \<Longrightarrow> led_is_on s \<Longrightarrow> displayState s \<noteq> DISPLAY_ALARM"
proof (induction rule: reachable.induct)
  case (reachable_init banner data ticks1 ticks2 spt)
  show ?case by (simp add: main_init_def)
next
  case (reachable_step s now q q1 s1)
  from main_loop_body_Some [OF reachable_step.hyps(2)] obtain sp t where
    s1: "s1 = main_step now sp (s\<lparr>switchPressedTime_local := t\<rparr>)" by blast
  show ?case
  proof
    assume "displayState s1 = DISPLAY_ALARM"
    with reachable_step.prems s1
    have "led_is_on (s\<lparr>switchPressedTime_local := t\<rparr>)
        \<and> displayState (s\<lparr>switchPressedTime_local := t\<rparr>) = DISPLAY_ALARM"
      by (intro main_step_led_in_alarm [of now sp]) simp_all
    with reachable_step.IH show False by simp
  qed
qed

lemma main_arming_timeout_clock:
  "displayState s = DISPLAY_CLOCK \<Longrightarrow> main_arming_timeout now s = s"
  by (simp add: main_arming_timeout_def)

lemma main_step_idle:
  assumes ni: "no_input sp s" and na: "displayState s \<noteq> DISPLAY_ALARM"
  shows "displayState (main_step now sp s) \<noteq> DISPLAY_ALARM"
    and "displayState s = DISPLAY_CLOCK \<Longrightarrow> displayState (main_step now sp s) = DISPLAY_CLOCK"
    and "ledOnTicks (main_step now sp s) = ledOnTicks s"
    and "led_is_on (main_step now sp s) = (led_is_on s \<and> elapsed now (ledOnTicks s) < 15000)"
proof -
  have st: "main_step now sp s = main_clock_minute now (main_no_input now s)"
    using ni by (rule main_step_no_input)
  from na have "displayState (main_arming_timeout now s) \<noteq> DISPLAY_ALARM" by simp
  then have cd: "main_alarm_countdown now (main_arming_timeout now s) = main_arming_timeout now s"
    by (rule main_alarm_countdown_idle)
  have ni': "main_no_input now s = main_led_timeout now (main_arming_timeout now s)"
    by (simp add: main_no_input_def cd)
  show "displayState (main_step now sp s) \<noteq> DISPLAY_ALARM"
    using na by (simp add: st ni')
  show "displayState (main_step now sp s) = DISPLAY_CLOCK" if "displayState s = DISPLAY_CLOCK"
    using that by (simp add: st ni' main_arming_timeout_clock)
  show "ledOnTicks (main_step now sp s) = ledOnTicks s"
    by (simp add: st ni')
  show "led_is_on (main_step now sp s) = (led_is_on s \<and> elapsed now (ledOnTicks s) < 15000)"
    by (simp add: st ni' main_led_timeout_led DELAY_TIME_15_def)
qed

lemma main_steps_idle:
  "displayState s \<noteq> DISPLAY_ALARM \<Longrightarrow> idle_steps xs s \<Longrightarrow>
     displayState (main_steps xs s) \<noteq> DISPLAY_ALARM
     \<and> (displayState s = DISPLAY_CLOCK \<longrightarrow> displayState (main_steps xs s) = DISPLAY_CLOCK)
     \<and> ledOnTicks (main_steps xs s) = ledOnTicks s
     \<and> led_is_on (main_steps xs s)
         = (led_is_on s \<and> list_all (\<lambda>(now, sp, t). elapsed now (ledOnTicks s) < 15000) xs)"
proof (induction xs arbitrary: s)
  case Nil
  then show ?case by simp
next
  case (Cons x xs)
  obtain now sp t where x: "x = (now, sp, t)" by (cases x)
  let ?u = "s\<lparr>switchPressedTime_local := t\<rparr>"
  let ?s1 = "main_step now sp ?u"
  from Cons.prems x have ni: "no_input sp ?u" and rest: "idle_steps xs ?s1" by simp_all
  from Cons.prems(1) have na: "displayState ?u \<noteq> DISPLAY_ALARM" by simp
  note one = main_step_idle [OF ni na, of now]
  from one(3) have lt: "ledOnTicks ?s1 = ledOnTicks s" by simp
  from one(4) have led: "led_is_on ?s1 = (led_is_on s \<and> elapsed now (ledOnTicks s) < 15000)"
    by simp
  have ck: "displayState s = DISPLAY_CLOCK \<Longrightarrow> displayState ?s1 = DISPLAY_CLOCK"
    using one(2) by simp
  from Cons.IH [OF one(1) rest] lt led ck show ?case
    by (auto simp: x)
qed

lemma alarm_expiry_step:
  "(displayState s = DISPLAY_ALARM \<and> no_input sp s \<and> 60000 \<le> elapsed now (previousAlarmTicks s) \<longrightarrow>
      (alarmHH (main_step now sp s), alarmMM (main_step now sp s)) = decrementTime (alarmHH s, alarmMM s)
      \<and> (decrementTime (alarmHH s, alarmMM s) = (0, 0) \<longrightarrow>
            displayState (main_step now sp s) = DISPLAY_CLOCK
            \<and> led_is_on (main_step now sp s)
            \<and> ledOnTicks (main_step now sp s) = now
            \<and> UART0_out (main_step now sp s) =
                UART0_out s @ printTime (clockHH s) (clockMM s)
                @ (if 60000 \<le> elapsed now (previousClockTicks s)
                   then printTime (clockHH (main_step now sp s)) (clockMM (main_step now sp s))
                   else [])))
   \<and> (led_is_on s \<and> no_input sp s \<and> elapsed now (ledOnTicks s) < 15000 \<longrightarrow>
         led_is_on (main_step now sp s))
   \<and> (reachable s \<and> led_is_on s \<and> no_input sp s
        \<and> 15000 \<le> elapsed now (ledOnTicks s) \<longrightarrow>
         \<not> led_is_on (main_step now sp s))
   \<and> (led_is_on s \<and> 200 \<le> elapsed (switchPressedTime_local s) (lastSwitch1Processed s) \<longrightarrow>
         main_step now 1 s
           = main_clock_minute now (led_off (s\<lparr>lastSwitch1Processed := switchPressedTime_local s\<rparr>))
         \<and> \<not> led_is_on (main_step now 1 s)
         \<and> displayState (main_step now 1 s) = displayState s
         \<and> alarmHH (main_step now 1 s) = alarmHH s
         \<and> alarmMM (main_step now 1 s) = alarmMM s
         \<and> previousAlarmTicks (main_step now 1 s) = previousAlarmTicks s
         \<and> previousSW1Ticks (main_step now 1 s) = previousSW1Ticks s
         \<and> ledOnTicks (main_step now 1 s) = ledOnTicks s)"
proof (intro conjI impI)
  assume a: "displayState s = DISPLAY_ALARM \<and> no_input sp s \<and> 60000 \<le> elapsed now (previousAlarmTicks s)"
  then have st: "main_step now sp s = main_clock_minute now (main_no_input now s)"
    by (simp add: main_step_no_input)
  from a have el: "DELAY_TIME_60 \<le> elapsed now (previousAlarmTicks s)" 
    and al: "displayState s = DISPLAY_ALARM" by (simp_all add: DELAY_TIME_60_def)
  show "(alarmHH (main_step now sp s), alarmMM (main_step now sp s)) = decrementTime (alarmHH s, alarmMM s)"
    using main_alarm_countdown_alarm [OF al el]
    by (simp add: st main_no_input_def main_arming_timeout_alarm [OF al])
  assume z: "decrementTime (alarmHH s, alarmMM s) = (0, 0)"
  have ni: "main_no_input now s =
     print_clock ((led_on (s\<lparr>alarmHH := 0, alarmMM := 0, displayState := DISPLAY_CLOCK\<rparr>))\<lparr>ledOnTicks := now\<rparr>)"
    by (simp add: main_no_input_def main_arming_timeout_alarm [OF al]
        main_alarm_countdown_fire [OF al el z] main_led_timeout_def elapsed_same DELAY_TIME_15_def
        step_defs)
  show "displayState (main_step now sp s) = DISPLAY_CLOCK"
    by (simp add: st ni step_defs led_on_def)
  show "led_is_on (main_step now sp s)" by (simp add: st ni)
  show "ledOnTicks (main_step now sp s) = now" by (simp add: st ni step_defs led_on_def)
  show "UART0_out (main_step now sp s) =
                UART0_out s @ printTime (clockHH s) (clockMM s)
                @ (if 60000 \<le> elapsed now (previousClockTicks s)
                   then printTime (clockHH (main_step now sp s)) (clockMM (main_step now sp s))
                   else [])"
    unfolding st main_clock_minute_out
    by (simp add: ni step_defs led_on_def DELAY_TIME_60_def)
next
  assume a: "led_is_on s \<and> no_input sp s \<and> elapsed now (ledOnTicks s) < 15000"
  then have st: "main_step now sp s = main_clock_minute now (main_no_input now s)"
    by (simp add: main_step_no_input)
  from a have "led_is_on (main_arming_timeout now s)"
     "elapsed now (ledOnTicks (main_arming_timeout now s)) < DELAY_TIME_15"
    by (simp_all add: DELAY_TIME_15_def)
  from main_alarm_countdown_led_stays [OF this]
  show "led_is_on (main_step now sp s)"
    by (simp add: st main_no_input_def main_led_timeout_led)
next
  assume a: "reachable s \<and> led_is_on s \<and> no_input sp s
        \<and> 15000 \<le> elapsed now (ledOnTicks s)"
  then have st: "main_step now sp s = main_clock_minute now (main_no_input now s)"
    by (simp add: main_step_no_input)
  from a have "displayState s \<noteq> DISPLAY_ALARM" by (simp add: reachable_led_not_alarm)
  then have "displayState (main_arming_timeout now s) \<noteq> DISPLAY_ALARM" by simp
  then have "main_alarm_countdown now (main_arming_timeout now s) = main_arming_timeout now s"
    by (rule main_alarm_countdown_idle)
  with a show "\<not> led_is_on (main_step now sp s)"
    by (simp add: st main_no_input_def main_led_timeout_led DELAY_TIME_15_def)
next
  assume a: "led_is_on s \<and> 200 \<le> elapsed (switchPressedTime_local s) (lastSwitch1Processed s)"
  then have "DEBOUNCE_TIME \<le> elapsed (switchPressedTime_local s) (lastSwitch1Processed s)"
    by (simp add: DEBOUNCE_TIME_def)
  from main_step_switch1_accepted [OF this, of now] a
  show st: "main_step now 1 s
           = main_clock_minute now (led_off (s\<lparr>lastSwitch1Processed := switchPressedTime_local s\<rparr>))"
    by (simp add: main_switch1_def)
  show "\<not> led_is_on (main_step now 1 s)" by (simp add: st)
  show "displayState (main_step now 1 s) = displayState s" by (simp add: st led_off_def)
  show "alarmHH (main_step now 1 s) = alarmHH s" by (simp add: st led_off_def)
  show "alarmMM (main_step now 1 s) = alarmMM s" by (simp add: st led_off_def)
  show "previousAlarmTicks (main_step now 1 s) = previousAlarmTicks s" by (simp add: st led_off_def)
  show "previousSW1Ticks (main_step now 1 s) = previousSW1Ticks s" by (simp add: st led_off_def)
  show "ledOnTicks (main_step now 1 s) = ledOnTicks s" by (simp add: st led_off_def)
qed

lemma no_input_none: "no_input (-1) s"
  by (simp add: no_input_def main_debounce_def)

lemma main_step_fire:
  assumes "displayState s = DISPLAY_ALARM" "no_input sp s"
    "60000 \<le> elapsed now (previousAlarmTicks s)"
    "decrementTime (alarmHH s, alarmMM s) = (0, 0)"
  shows "displayState (main_step now sp s) = DISPLAY_CLOCK"
    and "led_is_on (main_step now sp s)"
    and "ledOnTicks (main_step now sp s) = now"
  using alarm_expiry_step [of s sp now, THEN conjunct1] assms by blast+

text \<open>
  Claim C2. In state \<open>DISPLAY_ALARM\<close>, in an iteration that accepts no input and finds
  60000 ticks or more elapsed since \<open>previousAlarmTicks\<close>, the alarm time is decremented;
  when that gives 0:00 the state becomes \<open>DISPLAY_CLOCK\<close>, the clock time is printed, the
  led is turned on and \<open>ledOnTicks\<close> is set to \<open>now\<close>. While the led is on, an iteration
  without accepted input keeps it on as long as fewer than 15000 ticks have elapsed
  since \<open>ledOnTicks\<close> and, in a state reachable from startup, turns it off at 15000
  ticks or more, leaving \<open>ledOnTicks\<close> as it is. So, after the alarm has fired at tick
  \<open>now\<close>, along any run of iterations without accepted input \<open>ledOnTicks\<close> stays
  \<open>now\<close>, the state stays \<open>DISPLAY_CLOCK\<close>, and the led is on exactly as long as every
  iteration so far has read a tick fewer than 15000 away from \<open>now\<close>: it goes off at the
  first iteration that finds 15000 ticks or more elapsed since the alarm fired. The same
  holds along such a run from any reachable state with the led on.
  An accepted press of switch 1 while the led is on turns it off and leaves the display
  state, the alarm time and the timers of the alarm, the arming window and the led as
  they are: beyond the led, only \<open>lastSwitch1Processed\<close> and the minute check of the
  clock, which every iteration runs, act on the state.
\<close>

theorem C2_alarm_expiry:
  "(displayState s = DISPLAY_ALARM \<and> no_input sp s \<and> 60000 \<le> elapsed now (previousAlarmTicks s) \<longrightarrow>
      (alarmHH (main_step now sp s), alarmMM (main_step now sp s)) = decrementTime (alarmHH s, alarmMM s)
      \<and> (decrementTime (alarmHH s, alarmMM s) = (0, 0) \<longrightarrow>
            displayState (main_step now sp s) = DISPLAY_CLOCK
            \<and> led_is_on (main_step now sp s)
            \<and> ledOnTicks (main_step now sp s) = now
            \<and> UART0_out (main_step now sp s) =
                UART0_out s @ printTime (clockHH s) (clockMM s)
                @ (if 60000 \<le> elapsed now (previousClockTicks s)
                   then printTime (clockHH (main_step now sp s)) (clockMM (main_step now sp s))
                   else [])))
   \<and> (led_is_on s \<and> no_input sp s \<and> elapsed now (ledOnTicks s) < 15000 \<longrightarrow>
         led_is_on (main_step now sp s))
   \<and> (reachable s \<and> led_is_on s \<and> no_input sp s
        \<and> 15000 \<le> elapsed now (ledOnTicks s) \<longrightarrow>
         \<not> led_is_on (main_step now sp s))
   \<and> (led_is_on s \<and> 200 \<le> elapsed (switchPressedTime_local s) (lastSwitch1Processed s) \<longrightarrow>
         main_step now 1 s
           = main_clock_minute now (led_off (s\<lparr>lastSwitch1Processed := switchPressedTime_local s\<rparr>))
         \<and> \<not> led_is_on (main_step now 1 s)
         \<and> displayState (main_step now 1 s) = displayState s
         \<and> alarmHH (main_step now 1 s) = alarmHH s
         \<and> alarmMM (main_step now 1 s) = alarmMM s
         \<and> previousAlarmTicks (main_step now 1 s) = previousAlarmTicks s
         \<and> previousSW1Ticks (main_step now 1 s) = previousSW1Ticks s
         \<and> ledOnTicks (main_step now 1 s) = ledOnTicks s)
   \<and> (reachable s \<and> led_is_on s \<and> no_input sp s \<longrightarrow>
         ledOnTicks (main_step now sp s) = ledOnTicks s
         \<and> displayState (main_step now sp s) \<noteq> DISPLAY_ALARM)
   \<and> (displayState s = DISPLAY_ALARM \<and> no_input sp s
        \<and> 60000 \<le> elapsed now (previousAlarmTicks s)
        \<and> decrementTime (alarmHH s, alarmMM s) = (0, 0)
        \<and> idle_steps xs (main_step now sp s) \<longrightarrow>
         ledOnTicks (main_steps xs (main_step now sp s)) = now
         \<and> displayState (main_steps xs (main_step now sp s)) = DISPLAY_CLOCK
         \<and> led_is_on (main_steps xs (main_step now sp s))
             = list_all (\<lambda>(n, sp, t). elapsed n now < 15000) xs)
   \<and> (reachable s \<and> led_is_on s \<and> idle_steps xs s \<longrightarrow>
         ledOnTicks (main_steps xs s) = ledOnTicks s
         \<and> led_is_on (main_steps xs s)
             = list_all (\<lambda>(n, sp, t). elapsed n (ledOnTicks s) < 15000) xs)"
proof -
  note old = alarm_expiry_step [of s sp now]
  have e: "reachable s \<and> led_is_on s \<and> no_input sp s \<longrightarrow>
         ledOnTicks (main_step now sp s) = ledOnTicks s
         \<and> displayState (main_step now sp s) \<noteq> DISPLAY_ALARM"
  proof
    assume a: "reachable s \<and> led_is_on s \<and> no_input sp s"
    then have na: "displayState s \<noteq> DISPLAY_ALARM" by (simp add: reachable_led_not_alarm)
    from a have ni: "no_input sp s" by simp
    from main_step_idle(1,3) [OF ni na, of now]
    show "ledOnTicks (main_step now sp s) = ledOnTicks s
         \<and> displayState (main_step now sp s) \<noteq> DISPLAY_ALARM" by simp
  qed
  have f: "displayState s = DISPLAY_ALARM \<and> no_input sp s
        \<and> 60000 \<le> elapsed now (previousAlarmTicks s)
        \<and> decrementTime (alarmHH s, alarmMM s) = (0, 0)
        \<and> idle_steps xs (main_step now sp s) \<longrightarrow>
         ledOnTicks (main_steps xs (main_step now sp s)) = now
         \<and> displayState (main_steps xs (main_step now sp s)) = DISPLAY_CLOCK
         \<and> led_is_on (main_steps xs (main_step now sp s))
             = list_all (\<lambda>(n, sp, t). elapsed n now < 15000) xs"
  proof
    assume a: "displayState s = DISPLAY_ALARM \<and> no_input sp s
        \<and> 60000 \<le> elapsed now (previousAlarmTicks s)
        \<and> decrementTime (alarmHH s, alarmMM s) = (0, 0)
        \<and> idle_steps xs (main_step now sp s)"
    then have h: "displayState s = DISPLAY_ALARM" "no_input sp s"
      "60000 \<le> elapsed now (previousAlarmTicks s)"
      "decrementTime (alarmHH s, alarmMM s) = (0, 0)"
      and idle: "idle_steps xs (main_step now sp s)" by simp_all
    note fire = main_step_fire [OF h]
    from fire(1) have na: "displayState (main_step now sp s) \<noteq> DISPLAY_ALARM" by simp
    from main_steps_idle [OF na idle] fire
    show "ledOnTicks (main_steps xs (main_step now sp s)) = now
         \<and> displayState (main_steps xs (main_step now sp s)) = DISPLAY_CLOCK
         \<and> led_is_on (main_steps xs (main_step now sp s))
             = list_all (\<lambda>(n, sp, t). elapsed n now < 15000) xs" by simp
  qed
  have g: "reachable s \<and> led_is_on s \<and> idle_steps xs s \<longrightarrow>
         ledOnTicks (main_steps xs s) = ledOnTicks s
         \<and> led_is_on (main_steps xs s)
             = list_all (\<lambda>(n, sp, t). elapsed n (ledOnTicks s) < 15000) xs"
  proof
    assume a: "reachable s \<and> led_is_on s \<and> idle_steps xs s"
    then have na: "displayState s \<noteq> DISPLAY_ALARM" by (simp add: reachable_led_not_alarm)
    from a have idle: "idle_steps xs s" and on: "led_is_on s" by simp_all
    from main_steps_idle [OF na idle] on
    show "ledOnTicks (main_steps xs s) = ledOnTicks s
         \<and> led_is_on (main_steps xs s)
             = list_all (\<lambda>(n, sp, t). elapsed n (ledOnTicks s) < 15000) xs" by simp
  qed
  show ?thesis
    by (intro conjI old [THEN conjunct1] old [THEN conjunct2, THEN conjunct1]
        old [THEN conjunct2, THEN conjunct2, THEN conjunct1]
        old [THEN conjunct2, THEN conjunct2, THEN conjunct2] e f g)
qed

theorem C2_alarm_expiry_witness:
  "displayState (main_step 600 2 ((main_init [] 0 0 0 0)\<lparr>switchPressedTime_local := 500\<rparr>))
     = DISPLAY_ALARM
   \<and> no_input (-1) (main_step 600 2 ((main_init [] 0 0 0 0)\<lparr>switchPressedTime_local := 500\<rparr>))
   \<and> 60000 \<le> elapsed 60600 (previousAlarmTicks
         (main_step 600 2 ((main_init [] 0 0 0 0)\<lparr>switchPressedTime_local := 500\<rparr>)))
   \<and> decrementTime
        (alarmHH (main_step 600 2 ((main_init [] 0 0 0 0)\<lparr>switchPressedTime_local := 500\<rparr>)),
         alarmMM (main_step 600 2 ((main_init [] 0 0 0 0)\<lparr>switchPressedTime_local := 500\<rparr>)))
       = (0, 0)
   \<and> displayState (main_step 60600 (-1)
         (main_step 600 2 ((main_init [] 0 0 0 0)\<lparr>switchPressedTime_local := 500\<rparr>)))
       = DISPLAY_CLOCK
   \<and> led_is_on (main_step 60600 (-1)
         (main_step 600 2 ((main_init [] 0 0 0 0)\<lparr>switchPressedTime_local := 500\<rparr>)))
   \<and> ledOnTicks (main_step 60600 (-1)
         (main_step 600 2 ((main_init [] 0 0 0 0)\<lparr>switchPressedTime_local := 500\<rparr>)))
       = 60600
   \<and> reachable (main_step 60600 (-1)
         (main_step 600 2 ((main_init [] 0 0 0 0)\<lparr>switchPressedTime_local := 500\<rparr>)))
   \<and> idle_steps [(70000, -1, 500), (75600, -1, 500)] (main_step 60600 (-1)
         (main_step 600 2 ((main_init [] 0 0 0 0)\<lparr>switchPressedTime_local := 500\<rparr>)))
   \<and> led_is_on (main_steps [(70000, -1, 500)] (main_step 60600 (-1)
         (main_step 600 2 ((main_init [] 0 0 0 0)\<lparr>switchPressedTime_local := 500\<rparr>))))
   \<and> \<not> led_is_on (main_steps [(70000, -1, 500), (75600, -1, 500)] (main_step 60600 (-1)
         (main_step 600 2 ((main_init [] 0 0 0 0)\<lparr>switchPressedTime_local := 500\<rparr>))))
   \<and> ledOnTicks (main_steps [(70000, -1, 500), (75600, -1, 500)] (main_step 60600 (-1)
         (main_step 600 2 ((main_init [] 0 0 0 0)\<lparr>switchPressedTime_local := 500\<rparr>))))
       = 60600
   \<and> led_is_on (main_step 70000 (-1) (main_step 60600 (-1)
         (main_step 600 2 ((main_init [] 0 0 0 0)\<lparr>switchPressedTime_local := 500\<rparr>))))
   \<and> ledOnTicks (main_step 70000 (-1) (main_step 60600 (-1)
         (main_step 600 2 ((main_init [] 0 0 0 0)\<lparr>switchPressedTime_local := 500\<rparr>))))
       = 60600
   \<and> \<not> led_is_on (main_step 75600 (-1) (main_step 60600 (-1)
         (main_step 600 2 ((main_init [] 0 0 0 0)\<lparr>switchPressedTime_local := 500\<rparr>))))
   \<and> 200 \<le> elapsed 70000 (lastSwitch1Processed (main_step 60600 (-1)
         (main_step 600 2 ((main_init [] 0 0 0 0)\<lparr>switchPressedTime_local := 500\<rparr>))))
   \<and> \<not> led_is_on (main_step 70100 1 ((main_step 60600 (-1)
         (main_step 600 2 ((main_init [] 0 0 0 0)\<lparr>switchPressedTime_local := 500\<rparr>)))
           \<lparr>switchPressedTime_local := 70000\<rparr>))
   \<and> displayState (main_step 70100 1 ((main_step 60600 (-1)
         (main_step 600 2 ((main_init [] 0 0 0 0)\<lparr>switchPressedTime_local := 500\<rparr>)))
           \<lparr>switchPressedTime_local := 70000\<rparr>)) = DISPLAY_CLOCK"
proof -
  let ?s = "main_init [] 0 0 0 0"
  let ?x = "main_step 600 2 (?s\<lparr>switchPressedTime_local := 500\<rparr>)"
  let ?f = "main_step 60600 (-1) ?x"
  let ?p = "?f\<lparr>switchPressedTime_local := 70000\<rparr>"
  let ?xs1 = "[(70000, -1, 500)] :: (i32 \<times> i32 \<times> i32) list"
  let ?xs2 = "[(70000, -1, 500), (75600, -1, 500)] :: (i32 \<times> i32 \<times> i32) list"
  have x: "displayState ?x = DISPLAY_ALARM" "previousAlarmTicks ?x = 600"
    "alarmHH ?x = 0" "alarmMM ?x = 1" "lastSwitch1Processed ?x = 0"
    "switchPressedTime_local ?x = 500"
    by (simp_all add: main_init_def loop_defs)
  have ha: "displayState ?x = DISPLAY_ALARM \<and> no_input (-1) ?x
      \<and> 60000 \<le> elapsed 60600 (previousAlarmTicks ?x)"
    by (simp add: x no_input_none) (simp add: elapsed_def abs_i32_def)
  have hz: "decrementTime (alarmHH ?x, alarmMM ?x) = (0, 0)" by (simp add: x)
  note fire = C2_alarm_expiry [of ?x "-1" 60600, THEN conjunct1, rule_format, OF ha,
      THEN conjunct2, rule_format, OF hz]
  from fire have f: "displayState ?f = DISPLAY_CLOCK" "led_is_on ?f" "ledOnTicks ?f = 60600"
    by blast+
  have l1: "lastSwitch1Processed ?f = 0"
    using x(5) by (simp add: main_step_no_input [OF no_input_none] main_no_input_def
        main_arming_timeout_def main_alarm_countdown_def main_led_timeout_def
        main_clock_minute_def step_defs led_on_def led_off_def Let_def
        del: decrementTime.simps incrementTime.simps)
  have r0: "reachable ?s" by (rule reachable_init)
  have "main_loop_body 600 (queue_one_press 2 500) ?s
      = Some ((queue_one_press (-1) 500)\<lparr>FrontQueue := -1, RearQueue := -1\<rparr>, ?x)"
    by (simp add: main_loop_body_def queue_one_press_dequeue)
  from reachable_step [OF r0 this] have rx: "reachable ?x" .
  have "main_loop_body 60600 queue_init ?x = Some (queue_init, ?f)"
    by (simp add: main_loop_body_def dequeue_empty queue_init_inv)
  from reachable_step [OF rx this] have rf: "reachable ?f" .
  have idle: "idle_steps ?xs2 ?f" "idle_steps ?xs1 ?f" by (simp_all add: no_input_none)
  have hf1: "displayState ?x = DISPLAY_ALARM \<and> no_input (-1) ?x
        \<and> 60000 \<le> elapsed 60600 (previousAlarmTicks ?x)
        \<and> decrementTime (alarmHH ?x, alarmMM ?x) = (0, 0)
        \<and> idle_steps ?xs1 ?f"
    using ha hz idle by (intro conjI) simp_all
  have hf2: "displayState ?x = DISPLAY_ALARM \<and> no_input (-1) ?x
        \<and> 60000 \<le> elapsed 60600 (previousAlarmTicks ?x)
        \<and> decrementTime (alarmHH ?x, alarmMM ?x) = (0, 0)
        \<and> idle_steps ?xs2 ?f"
    using ha hz idle by (intro conjI) simp_all
  note chain1 = C2_alarm_expiry [of ?x "-1" 60600 ?xs1, THEN conjunct2, THEN conjunct2,
      THEN conjunct2, THEN conjunct2, THEN conjunct2, THEN conjunct1, rule_format, OF hf1]
  note chain2 = C2_alarm_expiry [of ?x "-1" 60600 ?xs2, THEN conjunct2, THEN conjunct2,
      THEN conjunct2, THEN conjunct2, THEN conjunct2, THEN conjunct1, rule_format, OF hf2]
  have e1: "elapsed 70000 60600 < 15000" and e2: "\<not> elapsed 75600 60600 < 15000"
    and e3: "15000 \<le> elapsed 75600 60600" and e4: "200 \<le> elapsed 70000 0"
    by (simp_all add: elapsed_def abs_i32_def)
  from chain1 e1 have c1: "led_is_on (main_steps ?xs1 ?f)" by simp
  from chain2 e1 e2 have c2: "\<not> led_is_on (main_steps ?xs2 ?f)"
    "ledOnTicks (main_steps ?xs2 ?f) = 60600" by simp_all
  have hb1: "led_is_on ?f \<and> no_input (-1) ?f \<and> elapsed 70000 (ledOnTicks ?f) < 15000"
    using f e1 by (simp add: no_input_none)
  have hb2: "reachable ?f \<and> led_is_on ?f \<and> no_input (-1) ?f
      \<and> 15000 \<le> elapsed 75600 (ledOnTicks ?f)"
    using f e3 rf by (simp add: no_input_none)
  have he: "reachable ?f \<and> led_is_on ?f \<and> no_input (-1) ?f"
    using f rf by (simp add: no_input_none)
  have hc: "led_is_on ?p
      \<and> 200 \<le> elapsed (switchPressedTime_local ?p) (lastSwitch1Processed ?p)"
    using f e4 l1 by simp
  note stays = C2_alarm_expiry [of ?f "-1" 70000, THEN conjunct2, THEN conjunct1,
      rule_format, OF hb1]
  note off = C2_alarm_expiry [of ?f "-1" 75600, THEN conjunct2, THEN conjunct2,
      THEN conjunct1, rule_format, OF hb2]
  note sw1 = C2_alarm_expiry [of ?p "-1" 70100, THEN conjunct2, THEN conjunct2,
      THEN conjunct2, THEN conjunct1, rule_format, OF hc]
  note frame = C2_alarm_expiry [of ?f "-1" 70000, THEN conjunct2, THEN conjunct2,
      THEN conjunct2, THEN conjunct2, THEN conjunct1, rule_format, OF he]
  from frame f have fr: "ledOnTicks (main_step 70000 (-1) ?f) = 60600" by simp
  from sw1 have s0: "\<not> led_is_on (main_step 70100 1 ?p)"
    "displayState (main_step 70100 1 ?p) = displayState ?p" by blast+
  from s0(2) f(1) have s1: "displayState (main_step 70100 1 ?p) = DISPLAY_CLOCK" by simp
  note s = s0(1) s1
  have e4': "200 \<le> elapsed 70000 (lastSwitch1Processed ?f)" using e4 l1 by simp
  from ha hz f rf idle(1) c1 c2 stays fr off e4' s show ?thesis by (intro conjI) blast+
qed

end
